theory Spec2Isabelle
  imports Complex_Main
begin

section \<open>Numeric conventions\<close>

text \<open>
  The program is \<^verbatim>\<open>scripts/run_yahoo_pead.py\<close>. Its numbers are Python integers
  (unbounded, modelled by \<^typ>\<open>int\<close>) and Python floats (binary64). A float is modelled by the
  \<^typ>\<open>real\<close> it stands for. Where a property depends on the rounding of the float operations
  the rounding of each operation is written out: in \<^verbatim>\<open>pick_expiries\<close>, where a float is
  converted back to an integer; in \<^verbatim>\<open>gapfill_and_clv\<close>, where floats are rounded to decimals;
  and in the binary64 reading of the interpolation. Elsewhere float arithmetic is modelled by
  exact arithmetic on \<^typ>\<open>real\<close>.
\<close>

text \<open>Rounding to the nearest integer, ties to the even neighbour.\<close>

definition round_half_even :: "real \<Rightarrow> int" where
  "round_half_even y =
     (let f = \<lfloor>y\<rfloor>; r = y - of_int f
      in if r < 1/2 then f else if 1/2 < r then f + 1 else if even f then f else f + 1)"

text \<open>
  Python's \<^verbatim>\<open>round(x, n)\<close> for \<open>n \<ge> 0\<close>: the nearest multiple of \<open>10\<^sup>-\<^sup>n\<close>, ties to even.
\<close>

definition py_round :: "real \<Rightarrow> nat \<Rightarrow> real" where
  "py_round x n = of_int (round_half_even (x * 10 ^ n)) / 10 ^ n"

text \<open>Python's \<^verbatim>\<open>int(x)\<close> on a float: truncation towards zero.\<close>

definition py_int :: "real \<Rightarrow> int" where
  "py_int x = (if 0 \<le> x then \<lfloor>x\<rfloor> else \<lceil>x\<rceil>)"

section \<open>Binary64 rounding\<close>

text \<open>Python's \<^verbatim>\<open>int.bit_length\<close> on a natural number.\<close>

fun bit_length :: "nat \<Rightarrow> nat" where
  "bit_length n = (if n = 0 then 0 else Suc (bit_length (n div 2)))"

declare bit_length.simps [simp del]

text \<open>The exponent \<open>e\<close> of a positive real \<open>a\<close>: \<open>2\<^sup>e \<le> a < 2\<^sup>e\<^sup>+\<^sup>1\<close>.\<close>

definition binary_exponent :: "real \<Rightarrow> int" where
  "binary_exponent a =
     (if 1 \<le> a then int (bit_length (nat \<lfloor>a\<rfloor>)) - 1
      else - int (bit_length (nat (\<lceil>1 / a\<rceil> - 1))))"

text \<open>
  The binary64 value of a real: 53 significant bits, round to nearest, ties to even. The
  exponent range is not modelled (no overflow to infinity, no subnormal numbers, no NaN).
\<close>

definition fl :: "real \<Rightarrow> real" where
  "fl x =
     (if x = 0 then 0
      else let u = 2 powi (binary_exponent \<bar>x\<bar> - 52)
           in sgn x * (of_int (round_half_even (\<bar>x\<bar> / u)) * u))"

text \<open>The unit in the last place of a positive real.\<close>

definition ulp :: "real \<Rightarrow> real" where
  "ulp a = 2 powi (binary_exponent a - 52)"

text \<open>
  Python's \<^verbatim>\<open>round(x, n)\<close> on a float \<open>x\<close>, for \<open>n \<ge> 0\<close>: the exact value of \<open>x\<close> is
  rounded to the nearest multiple of \<open>10\<^sup>-\<^sup>n\<close>, ties to even, and the result is the float
  nearest to that decimal.
\<close>

definition py_round_float :: "real \<Rightarrow> nat \<Rightarrow> real" where
  "py_round_float x n = fl (py_round x n)"

section \<open>Python values and exceptions\<close>

text \<open>
  What \<^verbatim>\<open>json.loads\<close> returns: \<^verbatim>\<open>None\<close>, a bool, an int, a float, a string, a list or a
  dictionary with string keys (an association list with distinct keys, looked up from the
  front).
\<close>

datatype pyval =
    VNone
  | VBool bool
  | VInt int
  | VFloat real
  | VStr string
  | VList "pyval list"
  | VDict "(string \<times> pyval) list"

text \<open>
  The exceptions the estimator can meet. \<open>ProviderFault\<close> stands for whatever subclass of
  \<^verbatim>\<open>Exception\<close> the HTTP fetch raises (network error, timeout, malformed JSON).
\<close>

datatype py_exception = KeyError | IndexError | TypeError | AttributeError | ProviderFault

type_synonym 'a result = "py_exception + 'a"

text \<open>Sequencing: an exception of the first step skips the rest.\<close>

definition try_bind :: "'a result \<Rightarrow> ('a \<Rightarrow> 'b result) \<Rightarrow> 'b result" where
  "try_bind m f = (case m of Inl err \<Rightarrow> Inl err | Inr v \<Rightarrow> f v)"

text \<open>\<^verbatim>\<open>v[k]\<close> for a string \<open>k\<close>: only a dictionary accepts a string subscript.\<close>

fun subscript_key :: "pyval \<Rightarrow> string \<Rightarrow> pyval result" where
  "subscript_key (VDict kvs) k = (case map_of kvs k of None \<Rightarrow> Inl KeyError | Some v \<Rightarrow> Inr v)"
| "subscript_key _ k = Inl TypeError"

text \<open>
  \<^verbatim>\<open>v[0]\<close>: the first element of a list, the first character of a string; a dictionary has
  string keys only, so \<open>0\<close> is never one of them.
\<close>

fun subscript_0 :: "pyval \<Rightarrow> pyval result" where
  "subscript_0 (VList []) = Inl IndexError"
| "subscript_0 (VList (v # vs)) = Inr v"
| "subscript_0 (VStr []) = Inl IndexError"
| "subscript_0 (VStr (c # cs)) = Inr (VStr [c])"
| "subscript_0 (VDict kvs) = Inl KeyError"
| "subscript_0 _ = Inl TypeError"

text \<open>\<^verbatim>\<open>v.get(k, default)\<close>: only a dictionary has the method.\<close>

fun dict_get :: "pyval \<Rightarrow> string \<Rightarrow> pyval \<Rightarrow> pyval result" where
  "dict_get (VDict kvs) k dflt = Inr (case map_of kvs k of None \<Rightarrow> dflt | Some v \<Rightarrow> v)"
| "dict_get _ k dflt = Inl AttributeError"

text \<open>\<^verbatim>\<open>for x in v\<close>: the elements of a list, the characters of a string, the keys of a dictionary.\<close>

fun py_iter :: "pyval \<Rightarrow> pyval list result" where
  "py_iter (VList vs) = Inr vs"
| "py_iter (VStr cs) = Inr (map (\<lambda>c. VStr [c]) cs)"
| "py_iter (VDict kvs) = Inr (map (\<lambda>kv. VStr (fst kv)) kvs)"
| "py_iter _ = Inl TypeError"

text \<open>The truth value of \<^verbatim>\<open>not v\<close> is the negation of this.\<close>

fun truthy :: "pyval \<Rightarrow> bool" where
  "truthy VNone = False"
| "truthy (VBool b) = b"
| "truthy (VInt i) = (i \<noteq> 0)"
| "truthy (VFloat x) = (x \<noteq> 0)"
| "truthy (VStr cs) = (cs \<noteq> [])"
| "truthy (VList vs) = (vs \<noteq> [])"
| "truthy (VDict kvs) = (kvs \<noteq> [])"

text \<open>The number a value stands for in arithmetic and comparisons; a bool counts as an int.\<close>

fun num_of :: "pyval \<Rightarrow> real option" where
  "num_of (VBool b) = Some (if b then 1 else 0)"
| "num_of (VInt i) = Some (of_int i)"
| "num_of (VFloat x) = Some x"
| "num_of _ = None"

text \<open>\<^verbatim>\<open>a - b\<close> on numbers, in exact arithmetic; anything else raises \<^verbatim>\<open>TypeError\<close>.\<close>

definition py_sub :: "pyval \<Rightarrow> pyval \<Rightarrow> real result" where
  "py_sub a b = (case (num_of a, num_of b) of (Some x, Some y) \<Rightarrow> Inr (x - y) | _ \<Rightarrow> Inl TypeError)"

section \<open>Choice of the two expiries\<close>

text \<open>
  \<^verbatim>\<open>(e - t_now_unix)/86400.0\<close> for an int \<open>e\<close>: the difference of two ints is exact, it is
  rounded when it becomes a float, and the quotient is rounded.
\<close>

definition days_to_expiry :: "int \<Rightarrow> int \<Rightarrow> real" where
  "days_to_expiry e t = fl (fl (of_int (e - t)) / 86400)"

text \<open>
  \<^verbatim>\<open>t_now_unix + int(d*86400)\<close>: the product of the float \<open>d\<close> and \<open>86400\<close> is a float
  product, rounded, and \<^verbatim>\<open>int\<close> truncates it.
\<close>

definition expiry_from_days :: "int \<Rightarrow> real \<Rightarrow> int" where
  "expiry_from_days t d = t + py_int (fl (d * 86400))"

text \<open>
  One element \<open>e\<close> of the list comprehension of \<^verbatim>\<open>pick_expiries\<close>: \<open>None\<close> when the filter
  \<^verbatim>\<open>e > t_now_unix + 86400\<close> rejects it, else the float \<^verbatim>\<open>(e - t_now_unix)/86400.0\<close>. A bool
  counts as an int. From a float, the int \<open>t_now_unix\<close> is subtracted in float arithmetic.
  The comparison of an int with a float is exact in Python. An element that is not a number
  fails in the comparison.
\<close>

fun expiry_day :: "pyval \<Rightarrow> int \<Rightarrow> real option result" where
  "expiry_day (VInt i) t =
     Inr (if i > t + 86400 then Some (days_to_expiry i t) else None)"
| "expiry_day (VBool b) t =
     Inr (if (if b then 1 else 0) > t + 86400
          then Some (days_to_expiry (if b then 1 else 0) t) else None)"
| "expiry_day (VFloat x) t =
     Inr (if x > of_int (t + 86400) then Some (fl (fl (x - fl (of_int t)) / 86400)) else None)"
| "expiry_day _ t = Inl TypeError"

text \<open>The list \<^verbatim>\<open>days\<close>.\<close>

fun expiry_days :: "pyval list \<Rightarrow> int \<Rightarrow> real list result" where
  "expiry_days [] t = Inr []"
| "expiry_days (e # es) t =
     try_bind (expiry_day e t) (\<lambda>d.
     try_bind (expiry_days es t) (\<lambda>ds.
       Inr (case d of None \<Rightarrow> ds | Some x \<Rightarrow> x # ds)))"

text \<open>\<^verbatim>\<open>xs[-1]\<close> and \<^verbatim>\<open>xs[0]\<close> on a list of floats.\<close>

definition py_last :: "real list \<Rightarrow> real result" where
  "py_last xs = (if xs = [] then Inl IndexError else Inr (last xs))"

definition py_first :: "real list \<Rightarrow> real result" where
  "py_first xs = (if xs = [] then Inl IndexError else Inr (hd xs))"

text \<open>\<^verbatim>\<open>pick_expiries(exp_unix, t_now_unix, target_days)\<close>.\<close>

definition pick_expiries :: "pyval \<Rightarrow> int \<Rightarrow> real \<Rightarrow> (pyval \<times> pyval) result" where
  "pick_expiries exp_unix t_now_unix target_days =
     try_bind (py_iter exp_unix) (\<lambda>es.
     try_bind (expiry_days es t_now_unix) (\<lambda>days.
       if days = [] then Inr (VNone, VNone)
       else
         let below = filter (\<lambda>d. d \<le> target_days) days;
             above = filter (\<lambda>d. d \<ge> target_days) days
         in try_bind (if below \<noteq> [] then py_last below else py_first above) (\<lambda>d1.
            try_bind (if above \<noteq> [] then py_first above else py_last below) (\<lambda>d2.
              Inr (VInt (expiry_from_days t_now_unix d1),
                   VInt (expiry_from_days t_now_unix d2))))))"

section \<open>Nearest-strike implied volatility\<close>

text \<open>\<^verbatim>\<open>iv in (None, 0)\<close>: \<open>iv\<close> is \<^verbatim>\<open>None\<close>, or a number equal to zero (\<^verbatim>\<open>False\<close> included).\<close>

definition in_none_zero :: "pyval \<Rightarrow> bool" where
  "in_none_zero iv = (iv = VNone \<or> num_of iv = Some 0)"

text \<open>
  The loop of \<^verbatim>\<open>nearest_atm_iv\<close>, with its state \<^verbatim>\<open>(best_iv, best_diff)\<close>. A row that is not
  a dictionary has no \<^verbatim>\<open>get\<close>; a strike or a spot that is not a number fails in \<^verbatim>\<open>k - spot\<close>.
\<close>

fun nearest_atm_loop :: "pyval list \<Rightarrow> pyval \<Rightarrow> pyval \<times> real \<Rightarrow> (pyval \<times> real) result" where
  "nearest_atm_loop [] spot best = Inr best"
| "nearest_atm_loop (opt # opts) spot best =
     try_bind (dict_get opt ''strike'' VNone) (\<lambda>k.
     try_bind (dict_get opt ''impliedVolatility'' VNone) (\<lambda>iv.
       if k = VNone \<or> in_none_zero iv then nearest_atm_loop opts spot best
       else
         try_bind (py_sub k spot) (\<lambda>x.
           let d = \<bar>x\<bar>
           in if d < snd best then nearest_atm_loop opts spot (iv, d)
              else nearest_atm_loop opts spot best)))"

definition nearest_atm_iv :: "pyval \<Rightarrow> pyval \<Rightarrow> pyval result" where
  "nearest_atm_iv options spot =
     try_bind (py_iter options) (\<lambda>opts.
     try_bind (nearest_atm_loop opts spot (VNone, 10 ^ 18)) (\<lambda>best.
       Inr (fst best)))"

section \<open>The 30-day estimator\<close>

text \<open>\<^verbatim>\<open>r["optionChain"]["result"][0]\<close>.\<close>

definition chain_result :: "pyval \<Rightarrow> pyval result" where
  "chain_result r =
     try_bind (subscript_key r ''optionChain'') (\<lambda>oc.
     try_bind (subscript_key oc ''result'') (\<lambda>rs.
       subscript_0 rs))"

text \<open>
  Lines 61 to 67 of \<^verbatim>\<open>iv30_from_yahoo\<close>: \<open>None\<close> where the source returns \<^verbatim>\<open>None\<close> early, else
  the quote, the spot and the two expiries. \<open>when\<close> is the POSIX time \<^verbatim>\<open>when.timestamp()\<close>.
\<close>

definition chain_head :: "pyval \<Rightarrow> real \<Rightarrow> (pyval \<times> pyval \<times> pyval \<times> pyval) option result" where
  "chain_head chain_json when =
     try_bind (chain_result chain_json) (\<lambda>res.
     try_bind (subscript_key res ''quote'') (\<lambda>quote.
     try_bind (dict_get quote ''regularMarketPrice'' VNone) (\<lambda>spot.
       if spot = VNone then Inr None
       else
         try_bind (dict_get res ''expirationDates'' (VList [])) (\<lambda>exp_unix.
         let t_now = py_int when
         in try_bind (pick_expiries exp_unix t_now 30) (\<lambda>(e1, e2).
              if \<not> truthy e1 \<or> \<not> truthy e2 then Inr None
              else Inr (Some (quote, spot, e1, e2)))))))"

text \<open>
  The expression \<^verbatim>\<open>ivc if ivp is None else (ivc+ivp)/2 if ivc else ivp\<close> of lines 73 and 74.
  The sum of two values that are not both numbers is either a \<^verbatim>\<open>TypeError\<close> or a string or
  list whose division by 2 is one.
\<close>

definition call_put_iv :: "pyval \<Rightarrow> pyval \<Rightarrow> pyval result" where
  "call_put_iv ivc ivp =
     (if ivp = VNone then Inr ivc
      else if truthy ivc
           then (case (num_of ivc, num_of ivp) of
                   (Some a, Some b) \<Rightarrow> Inr (VFloat ((a + b) / 2))
                 | _ \<Rightarrow> Inl TypeError)
           else Inr ivp)"

text \<open>
  The collaborator \<^verbatim>\<open>yahoo_chain_for_date(ticker, exp_unix)\<close> is a parameter \<open>fetch\<close>: it
  returns the parsed answer or raises. This is
  \<^verbatim>\<open>yahoo_chain_for_date(quote["symbol"], e)["optionChain"]["result"][0]["options"][0]\<close>.
\<close>

definition bucket_of :: "pyval \<Rightarrow> pyval result" where
  "bucket_of r =
     try_bind (chain_result r) (\<lambda>res.
     try_bind (subscript_key res ''options'') (\<lambda>os.
       subscript_0 os))"

definition fetch_bucket ::
  "(pyval \<Rightarrow> pyval \<Rightarrow> pyval result) \<Rightarrow> pyval \<Rightarrow> pyval \<Rightarrow> pyval result" where
  "fetch_bucket fetch quote e =
     try_bind (subscript_key quote ''symbol'') (\<lambda>ticker.
     try_bind (fetch ticker e) (\<lambda>r.
       bucket_of r))"

text \<open>Lines 69 to 74, in the order of the source.\<close>

definition fetch_ivs ::
  "(pyval \<Rightarrow> pyval \<Rightarrow> pyval result) \<Rightarrow> pyval \<Rightarrow> pyval \<Rightarrow> pyval \<Rightarrow> pyval \<Rightarrow> (pyval \<times> pyval) result" where
  "fetch_ivs fetch quote spot e1 e2 =
     try_bind (fetch_bucket fetch quote e1) (\<lambda>j1.
     try_bind (fetch_bucket fetch quote e2) (\<lambda>j2.
     try_bind (dict_get j1 ''calls'' (VList [])) (\<lambda>c1.
     try_bind (nearest_atm_iv c1 spot) (\<lambda>iv1c.
     try_bind (dict_get j1 ''puts'' (VList [])) (\<lambda>p1.
     try_bind (nearest_atm_iv p1 spot) (\<lambda>iv1p.
     try_bind (dict_get j2 ''calls'' (VList [])) (\<lambda>c2.
     try_bind (nearest_atm_iv c2 spot) (\<lambda>iv2c.
     try_bind (dict_get j2 ''puts'' (VList [])) (\<lambda>p2.
     try_bind (nearest_atm_iv p2 spot) (\<lambda>iv2p.
     try_bind (call_put_iv iv1c iv1p) (\<lambda>iv1.
     try_bind (call_put_iv iv2c iv2p) (\<lambda>iv2.
       Inr (iv1, iv2)))))))))))))"

text \<open>Lines 79 to 82: the interpolation in variance-time.\<close>

definition interpolate_iv30 :: "real \<Rightarrow> real \<Rightarrow> real \<Rightarrow> real \<Rightarrow> real" where
  "interpolate_iv30 iv1 iv2 T1 T2 =
     (let Tt = 30 / (36525 / 100);
          var1 = iv1 * iv1 * T1;
          var2 = iv2 * iv2 * T2;
          alpha = (if \<bar>T2 - T1\<bar> > 1 / 10 ^ 9 then (Tt - T1) / (T2 - T1) else 1 / 2);
          vart = var1 + (var2 - var1) * alpha
      in sqrt (max (1 / 10 ^ 10) (vart / Tt)))"

text \<open>
  Lines 79 to 82 again (with \<open>Tt\<close> of line 78), the rounding of every float operation
  written out: each product, difference, sum and quotient is rounded to binary64,
  \<^verbatim>\<open>30.0/365.25\<close>, \<^verbatim>\<open>1e-9\<close> and \<^verbatim>\<open>1e-10\<close> are the floats nearest to those numbers, and
  \<^verbatim>\<open>math.sqrt\<close> returns the float nearest to the square root.
\<close>

definition interpolate_iv30_binary64 :: "real \<Rightarrow> real \<Rightarrow> real \<Rightarrow> real \<Rightarrow> real" where
  "interpolate_iv30_binary64 iv1 iv2 T1 T2 =
     (let Tt = fl (30 / (36525 / 100));
          var1 = fl (fl (iv1 * iv1) * T1);
          var2 = fl (fl (iv2 * iv2) * T2);
          alpha = (if \<bar>fl (T2 - T1)\<bar> > fl (1 / 10 ^ 9)
                   then fl (fl (Tt - T1) / fl (T2 - T1)) else 1 / 2);
          vart = fl (var1 + fl (fl (var2 - var1) * alpha))
      in fl (sqrt (max (fl (1 / 10 ^ 10)) (fl (vart / Tt)))))"

text \<open>
  Lines 75 to 82. The year fractions of line 78 are \<^verbatim>\<open>max(1e-6, (e - t_now)/31557600.0)\<close>.
\<close>

definition combine_ivs :: "pyval \<Rightarrow> pyval \<Rightarrow> pyval \<Rightarrow> pyval \<Rightarrow> int \<Rightarrow> pyval result" where
  "combine_ivs iv1 iv2 e1 e2 t_now =
     (if iv1 = VNone \<and> iv2 = VNone then Inr VNone
      else if iv1 = VNone then Inr iv2
      else if iv2 = VNone then Inr iv1
      else
        try_bind (py_sub e1 (VInt t_now)) (\<lambda>x1.
        try_bind (py_sub e2 (VInt t_now)) (\<lambda>x2.
          (case (num_of iv1, num_of iv2) of
             (Some a, Some b) \<Rightarrow>
               Inr (VFloat (interpolate_iv30 a b (max (1 / 10 ^ 6) (x1 / 31557600))
                                              (max (1 / 10 ^ 6) (x2 / 31557600))))
           | _ \<Rightarrow> Inl TypeError))))"

text \<open>The body of the \<^verbatim>\<open>try\<close> block of \<^verbatim>\<open>iv30_from_yahoo\<close>.\<close>

definition iv30_body :: "(pyval \<Rightarrow> pyval \<Rightarrow> pyval result) \<Rightarrow> pyval \<Rightarrow> real \<Rightarrow> pyval result" where
  "iv30_body fetch chain_json when =
     try_bind (chain_head chain_json when) (\<lambda>h.
       case h of
         None \<Rightarrow> Inr VNone
       | Some (quote, spot, e1, e2) \<Rightarrow>
           try_bind (fetch_ivs fetch quote spot e1 e2) (\<lambda>(iv1, iv2).
             combine_ivs iv1 iv2 e1 e2 (py_int when)))"

text \<open>\<^verbatim>\<open>iv30_from_yahoo(chain_json, when)\<close>: \<^verbatim>\<open>except Exception: return None\<close>.\<close>

definition iv30_from_yahoo :: "(pyval \<Rightarrow> pyval \<Rightarrow> pyval result) \<Rightarrow> pyval \<Rightarrow> real \<Rightarrow> pyval" where
  "iv30_from_yahoo fetch chain_json when =
     (case iv30_body fetch chain_json when of Inl err \<Rightarrow> VNone | Inr v \<Rightarrow> v)"

text \<open>
  The implied volatility one expiry yields: the steps of lines 69 to 74 that concern it.
\<close>

definition expiry_iv ::
  "(pyval \<Rightarrow> pyval \<Rightarrow> pyval result) \<Rightarrow> pyval \<Rightarrow> pyval \<Rightarrow> pyval \<Rightarrow> pyval result" where
  "expiry_iv fetch quote spot e =
     try_bind (fetch_bucket fetch quote e) (\<lambda>j.
     try_bind (dict_get j ''calls'' (VList [])) (\<lambda>c.
     try_bind (nearest_atm_iv c spot) (\<lambda>ivc.
     try_bind (dict_get j ''puts'' (VList [])) (\<lambda>p.
     try_bind (nearest_atm_iv p spot) (\<lambda>ivp.
       call_put_iv ivc ivp)))))"

section \<open>Conditions on the provider's data\<close>

text \<open>
  The data model gives every option quote an implied volatility that is absent or a
  non-negative number. These predicates say so of the rows the collaborator returns; they are
  hypotheses of theorems, not code of the program. A row that is not a dictionary makes
  \<^verbatim>\<open>nearest_atm_iv\<close> raise, so nothing is asked of it.
\<close>

definition iv_field_ok :: "pyval \<Rightarrow> bool" where
  "iv_field_ok iv = (case iv of VNone \<Rightarrow> True | VInt i \<Rightarrow> 0 \<le> i | VFloat x \<Rightarrow> 0 \<le> x | _ \<Rightarrow> False)"

fun row_ok :: "pyval \<Rightarrow> bool" where
  "row_ok (VDict kvs) = (case map_of kvs ''impliedVolatility'' of None \<Rightarrow> True | Some iv \<Rightarrow> iv_field_ok iv)"
| "row_ok _ = True"

definition rows_ok :: "pyval \<Rightarrow> bool" where
  "rows_ok options = (case py_iter options of Inl err \<Rightarrow> True | Inr opts \<Rightarrow> list_all row_ok opts)"

definition response_ok :: "pyval \<Rightarrow> bool" where
  "response_ok r =
     (case bucket_of r of
        Inl err \<Rightarrow> True
      | Inr j \<Rightarrow>
          (case dict_get j ''calls'' (VList []) of Inl err \<Rightarrow> True | Inr c \<Rightarrow> rows_ok c)
        \<and> (case dict_get j ''puts'' (VList []) of Inl err \<Rightarrow> True | Inr p \<Rightarrow> rows_ok p))"

definition fetch_ok :: "(pyval \<Rightarrow> pyval \<Rightarrow> pyval result) \<Rightarrow> bool" where
  "fetch_ok fetch = (\<forall>ticker e. case fetch ticker e of Inl err \<Rightarrow> True | Inr r \<Rightarrow> response_ok r)"

text \<open>\<^verbatim>\<open>None\<close>, or a number above zero.\<close>

definition positive_or_none :: "pyval \<Rightarrow> bool" where
  "positive_or_none v = (v = VNone \<or> (\<exists>x. num_of v = Some x \<and> 0 < x))"

section \<open>Example data\<close>

text \<open>
  A chain with a quote and a list of expiries, an answer of the collaborator with one call and
  one put, and a collaborator that knows the expiries 10 and 50 days after time \<open>0\<close>.
\<close>

definition example_quote :: pyval where
  "example_quote = VDict [(''symbol'', VStr ''ABC''), (''regularMarketPrice'', VFloat 100)]"

definition example_chain :: "pyval \<Rightarrow> pyval \<Rightarrow> pyval" where
  "example_chain quote expirations =
     VDict [(''optionChain'', VDict [(''result'', VList [VDict [
       (''quote'', quote), (''expirationDates'', expirations)]])])]"

definition example_response :: "pyval \<Rightarrow> pyval \<Rightarrow> pyval" where
  "example_response call_iv put_iv =
     VDict [(''optionChain'', VDict [(''result'', VList [VDict [
       (''options'', VList [VDict [
          (''calls'', VList [VDict [(''strike'', VFloat 101), (''impliedVolatility'', call_iv)]]),
          (''puts'', VList [VDict [(''strike'', VFloat 99), (''impliedVolatility'', put_iv)]])]])]])])]"

definition example_fetch :: "pyval result \<Rightarrow> pyval result \<Rightarrow> pyval \<Rightarrow> pyval \<Rightarrow> pyval result" where
  "example_fetch r1 r2 ticker e =
     (if e = VInt 864000 then r1 else if e = VInt 4320000 then r2 else Inl ProviderFault)"

section \<open>Gap fill and close location value\<close>

text \<open>
  \<^verbatim>\<open>yahoo_hist_day\<close> builds the bar as a dictionary with exactly the keys
  \<^verbatim>\<open>open, high, low, close, volume\<close>; it is a record here.
\<close>

record ohlc =
  d_open :: real
  d_high :: real
  d_low :: real
  d_close :: real
  d_volume :: int

text \<open>
  \<^verbatim>\<open>gapfill_and_clv(prev_close, d0)\<close>, every float operation rounded to binary64. Both
  divisions are guarded by the source (\<^verbatim>\<open>gap > 1e-9\<close>, \<^verbatim>\<open>h > l\<close>), so no division by zero
  is reached. The constants \<open>100\<close>, \<open>150\<close> and \<open>2\<close> are binary64 values, \<^verbatim>\<open>1e-9\<close> is the
  float nearest to \<open>10\<^sup>-\<^sup>9\<close>.
\<close>

definition gapfill_and_clv :: "real \<Rightarrow> ohlc \<Rightarrow> real \<times> real" where
  "gapfill_and_clv prev_close d0 =
     (let opn = d_open d0; h = d_high d0; l = d_low d0; c = d_close d0;
          gap = (if opn \<ge> prev_close then fl (opn - prev_close) else fl (prev_close - opn));
          retr = (if opn \<ge> prev_close then fl (opn - l) else fl (h - opn));
          gapFillPct = (if gap > fl (1 / 10 ^ 9) then min 150 (fl (100 * fl (retr / gap))) else 0);
          clv = (if h > l then fl (fl (fl (fl (2 * c) - h) - l) / fl (h - l)) else 0)
      in (py_round_float gapFillPct 2, py_round_float clv 3))"

text \<open>A bar for the examples, by open, high, low and close.\<close>

definition example_bar :: "real \<Rightarrow> real \<Rightarrow> real \<Rightarrow> real \<Rightarrow> ohlc" where
  "example_bar opn h l c = \<lparr>d_open = opn, d_high = h, d_low = l, d_close = c, d_volume = 1000\<rparr>"

section \<open>Drift scorer\<close>

text \<open>
  The additive score of \<^verbatim>\<open>simple_pead\<close> (its local variable \<^verbatim>\<open>score\<close>, lines 95 to 100).
  An argument that is \<^verbatim>\<open>None\<close> contributes nothing.
\<close>

definition pead_score :: "real option \<Rightarrow> real option \<Rightarrow> real option \<Rightarrow> real" where
  "pead_score clv gapFillPct ivCrush =
     (let score = 0;
          score = (case clv of None \<Rightarrow> score
                   | Some c \<Rightarrow> score + (if c \<ge> 0 then 1 else - (1/2)));
          score = (case gapFillPct of None \<Rightarrow> score
                   | Some g \<Rightarrow> score + (if g \<le> 33 then 1 else - (1/2)));
          score = (case ivCrush of None \<Rightarrow> score
                   | Some x \<Rightarrow> if - 40 \<le> x \<and> x \<le> - 5 then score + 1
                              else if x < - 50 then score - 1/2 else score)
      in score)"

text \<open>\<^verbatim>\<open>simple_pead(clv, gapFillPct, ivCrush)\<close>, returning \<^verbatim>\<open>(round(pead, 2), rng, conf)\<close>.\<close>

definition simple_pead :: "real option \<Rightarrow> real option \<Rightarrow> real option \<Rightarrow> real \<times> int list \<times> real" where
  "simple_pead clv gapFillPct ivCrush =
     (let score = pead_score clv gapFillPct ivCrush;
          pead = max (- 8) (min 12 (2 * score));
          rng = [py_int (pead - 3), py_int (pead + 3)];
          conf = max (1/10) (min (8/10) (py_round (35/100 + (1/10) * score) 2))
      in (py_round pead 2, rng, conf))"

section \<open>Rounding lemmas\<close>

lemma rhe_of_int [simp]: "round_half_even (of_int n) = n"
  by (simp add: round_half_even_def)

lemma rhe_numeral [simp]:
  "round_half_even (numeral k) = numeral k"
  "round_half_even (- numeral k) = - numeral k"
  "round_half_even 0 = 0"
  "round_half_even 1 = 1"
  using rhe_of_int [of "numeral k"] rhe_of_int [of "- numeral k"] rhe_of_int [of 0] rhe_of_int [of 1]
  by simp_all

lemma rhe_cases: "round_half_even y = \<lfloor>y\<rfloor> \<or> round_half_even y = \<lfloor>y\<rfloor> + 1"
  by (simp add: round_half_even_def Let_def)

lemma rhe_mono:
  assumes "x \<le> y" shows "round_half_even x \<le> round_half_even y"
proof (cases "\<lfloor>x\<rfloor> = \<lfloor>y\<rfloor>")
  case True
  with assms show ?thesis
    by (auto simp add: round_half_even_def Let_def)
next
  case False
  with assms have lt: "\<lfloor>x\<rfloor> + 1 \<le> \<lfloor>y\<rfloor>"
    using floor_mono [of x y] by linarith
  have "round_half_even x \<le> \<lfloor>x\<rfloor> + 1"
    using rhe_cases [of x] by linarith
  moreover have "\<lfloor>y\<rfloor> \<le> round_half_even y"
    using rhe_cases [of y] by linarith
  ultimately show ?thesis using lt by linarith
qed

lemma py_round_mono: "x \<le> y \<Longrightarrow> py_round x n \<le> py_round y n"
  by (simp add: py_round_def divide_right_mono rhe_mono)

lemma py_round_of_int [simp]: "py_round (of_int k) n = of_int k"
proof -
  have "(of_int k :: real) * 10 ^ n = of_int (k * 10 ^ n)" by simp
  then have "round_half_even (of_int k * 10 ^ n) = k * 10 ^ n"
    using rhe_of_int by metis
  then show ?thesis by (simp add: py_round_def)
qed

lemma py_round_numeral [simp]:
  "py_round (numeral k) n = numeral k"
  "py_round (- numeral k) n = - numeral k"
  "py_round 0 n = 0"
  "py_round 1 n = 1"
  using py_round_of_int [of "numeral k" n] py_round_of_int [of "- numeral k" n]
    py_round_of_int [of 0 n] py_round_of_int [of 1 n]
  by simp_all

lemma py_round_exact: "x * 10 ^ n = of_int m \<Longrightarrow> py_round x n = x"
  by (simp add: py_round_def field_simps)

lemma py_int_of_int [simp]: "py_int (of_int k) = k"
  by (simp add: py_int_def)

lemma pead_score_Ints: "2 * pead_score clv g x \<in> \<int>"
  by (simp add: pead_score_def Let_def split: option.split)

lemma pead_score_bounds: "- (3/2) \<le> pead_score clv g x" "pead_score clv g x \<le> 3"
  by (simp_all add: pead_score_def Let_def split: option.split)

lemma simple_pead_exact:
  "simple_pead clv g x =
     (let s = pead_score clv g x
      in (2 * s, [py_int (2 * s - 3), py_int (2 * s + 3)], 35/100 + s / 10))"
proof -
  define s where "s = pead_score clv g x"
  obtain k where k: "2 * s = of_int k"
    using pead_score_Ints [of clv g x] unfolding s_def by (auto elim: Ints_cases)
  have b: "- (3/2) \<le> s" "s \<le> 3"
    unfolding s_def by (rule pead_score_bounds)+
  have clamp: "max (- 8) (min 12 (2 * s)) = 2 * s"
    using b by simp
  have r1: "py_round (2 * s) 2 = 2 * s"
    by (simp add: k)
  have "(35/100 + (1/10) * s) * 10 ^ 2 = of_int (35 + 5 * k)"
    using k by simp
  then have r2: "py_round (35/100 + (1/10) * s) 2 = 35/100 + (1/10) * s"
    by (rule py_round_exact)
  have c2: "max (1/10) (min (8/10) (35/100 + (1/10) * s)) = 35/100 + s / 10"
    using b by simp
  show ?thesis
    unfolding simple_pead_def Let_def s_def [symmetric] clamp r1 r2 c2 ..
qed

lemma py_round_bounds:
  assumes "of_int a \<le> x" "x \<le> of_int b"
  shows "of_int a \<le> py_round x n \<and> py_round x n \<le> of_int b"
  using py_round_mono [OF assms(1), of n] py_round_mono [OF assms(2), of n] by simp

section \<open>Binary64 rounding lemmas\<close>

lemma rhe_error: "\<bar>of_int (round_half_even y) - y\<bar> \<le> 1 / 2"
  unfolding round_half_even_def Let_def by (auto; linarith)

lemma bit_length_bounds: "0 < n \<Longrightarrow> 2 ^ (bit_length n - 1) \<le> n \<and> n < 2 ^ bit_length n"
proof (induction n rule: bit_length.induct)
  case (1 n)
  show ?case
  proof (cases "n div 2 = 0")
    case True
    with 1(2) have "n = 1" by (auto simp add: div_eq_0_iff)
    then show ?thesis by (simp add: bit_length.simps)
  next
    case False
    then have h: "0 < n div 2" by simp
    from 1(1) [OF _ h] 1(2) have ih: "2 ^ (bit_length (n div 2) - 1) \<le> n div 2"
      "n div 2 < 2 ^ bit_length (n div 2)" by auto
    have pos: "0 < bit_length (n div 2)" using h by (simp add: bit_length.simps [of "n div 2"])
    have bl: "bit_length n = Suc (bit_length (n div 2))" using 1(2) by (simp add: bit_length.simps [of n])
    have "2 ^ (bit_length n - 1) = 2 * 2 ^ (bit_length (n div 2) - 1)"
      using pos bl by (cases "bit_length (n div 2)") simp_all
    also have "\<dots> \<le> 2 * (n div 2)" using ih(1) by simp
    also have "\<dots> \<le> n" by simp
    finally have lo: "2 ^ (bit_length n - 1) \<le> n" .
    have "n < 2 * (n div 2) + 2" by presburger
    also have "\<dots> \<le> 2 * 2 ^ bit_length (n div 2)" using ih(2) by simp
    also have "\<dots> = 2 ^ bit_length n" using bl by simp
    finally show ?thesis using lo by simp
  qed
qed

lemma bit_length_bounds_real:
  assumes "0 < n"
  shows "(2::real) ^ (bit_length n - 1) \<le> real n" and "real n + 1 \<le> 2 ^ bit_length n"
proof -
  from bit_length_bounds [OF assms] have b: "2 ^ (bit_length n - 1) \<le> n" "Suc n \<le> 2 ^ bit_length n"
    by auto
  from of_nat_mono [OF b(1), where 'a = real] show "(2::real) ^ (bit_length n - 1) \<le> real n" by simp
  from of_nat_mono [OF b(2), where 'a = real] show "real n + 1 \<le> 2 ^ bit_length n" by simp
qed

lemma bit_length_pos: "0 < n \<Longrightarrow> 0 < bit_length n"
  by (simp add: bit_length.simps [of n])

lemma binary_exponent_bounds:
  assumes "0 < a"
  shows "2 powi binary_exponent a \<le> a" and "a < 2 powi (binary_exponent a + 1)"
proof -
  have "2 powi binary_exponent a \<le> a \<and> a < 2 powi (binary_exponent a + 1)"
  proof (cases "1 \<le> a")
    case True
    define n where "n = nat \<lfloor>a\<rfloor>"
    have fl0: "1 \<le> \<lfloor>a\<rfloor>" using True by simp
    have n: "0 < n" using fl0 by (simp add: n_def)
    have nr: "real n \<le> a" "a < real n + 1"
      using fl0 of_int_floor_le [of a] floor_correct [of a] by (simp_all add: n_def)
    note b = bit_length_bounds_real [OF n]
    have e: "binary_exponent a = int (bit_length n - 1)"
      using True bit_length_pos [OF n] by (simp add: binary_exponent_def n_def)
    have e1: "binary_exponent a + 1 = int (bit_length n)" using e bit_length_pos [OF n] by simp
    have p: "(2::real) powi int (bit_length n - 1) = 2 ^ (bit_length n - 1)"
      "(2::real) powi int (bit_length n) = 2 ^ bit_length n" by simp_all
    have lo: "2 powi binary_exponent a \<le> a"
      unfolding e p using b(1) nr(1) by (rule order_trans)
    have "a < 2 powi (binary_exponent a + 1)"
      unfolding e1 p using nr(2) b(2) by (rule less_le_trans)
    with lo show ?thesis by simp
  next
    case False
    then have a1: "a < 1" by simp
    define c where "c = \<lceil>1 / a\<rceil>"
    have inv: "1 < 1 / a" using assms a1 by simp
    have c2: "2 \<le> c" using inv unfolding c_def by linarith
    define n where "n = nat (c - 1)"
    have n: "0 < n" using c2 by (simp add: n_def)
    have rn: "real n = of_int c - 1" using c2 by (simp add: n_def)
    have cb: "of_int c - 1 < 1 / a" "1 / a \<le> of_int c"
      unfolding c_def using ceiling_correct [of "1 / a"] by simp_all
    note b = bit_length_bounds_real [OF n]
    have e: "binary_exponent a = - int (bit_length n)"
      using False by (simp add: binary_exponent_def n_def c_def)
    have e1: "binary_exponent a + 1 = - int (bit_length n - 1)"
      using e bit_length_pos [OF n] by simp
    have "of_int c \<le> (2::real) ^ bit_length n" using b(2) unfolding rn by simp
    with cb(2) have "1 / a \<le> 2 ^ bit_length n" by (rule order_trans)
    then have "1 / 2 ^ bit_length n \<le> a" using assms by (simp add: field_simps)
    then have lo: "2 powi binary_exponent a \<le> a"
      unfolding e by (simp add: power_int_minus_divide)
    have "(2::real) ^ (bit_length n - 1) \<le> of_int c - 1" using b(1) unfolding rn .
    then have "2 ^ (bit_length n - 1) < 1 / a" using cb(1) by (rule le_less_trans)
    then have "a < 1 / 2 ^ (bit_length n - 1)" using assms by (simp add: field_simps)
    then have "a < 2 powi (binary_exponent a + 1)"
      unfolding e1 by (simp add: power_int_minus_divide)
    with lo show ?thesis by simp
  qed
  then show "2 powi binary_exponent a \<le> a" and "a < 2 powi (binary_exponent a + 1)" by simp_all
qed


lemma two_powi_less_cancel: "(2::real) powi m < 2 powi n \<Longrightarrow> m < n"
  using power_int_increasing [of n m "2::real"] by (cases "m < n") auto

lemma two_powi_pos [simp]: "0 < (2::real) powi n"
  by (simp add: zero_less_power_int)


lemma ulp_pos [simp]: "0 < ulp a"
  by (simp add: ulp_def)

lemma ulp_nonneg [simp]: "0 \<le> ulp a"
  using ulp_pos [of a] by (rule less_imp_le)

lemma ulp_neq_0 [simp]: "ulp a \<noteq> 0"
  using ulp_pos [of a] by (rule less_imp_neq [symmetric])

lemma fl_pos_eq: "0 < a \<Longrightarrow> fl a = of_int (round_half_even (a / ulp a)) * ulp a"
  by (simp add: fl_def ulp_def Let_def)

lemma fl_zero [simp]: "fl 0 = 0"
  by (simp add: fl_def)

lemma fl_minus: "fl (- x) = - fl x"
  by (simp add: fl_def Let_def sgn_minus)

lemma fl_neg_eq: "a < 0 \<Longrightarrow> fl a = - fl (- a)"
  by (simp add: fl_minus)


lemma two_powi_52: "(2::real) powi (e - 52) * 2 ^ 52 = 2 powi e"
proof -
  have "(2::real) powi (e - 52) * 2 powi 52 = 2 powi (e - 52 + 52)"
    by (subst power_int_add) simp_all
  then show ?thesis by simp
qed

lemma two_powi_53: "(2::real) powi (e - 52) * 2 ^ 53 = 2 powi (e + 1)"
proof -
  have "(2::real) powi (e - 52) * 2 powi 53 = 2 powi (e - 52 + 53)"
    by (subst power_int_add) simp_all
  then show ?thesis by (simp add: add.commute)
qed

lemma scaled_bounds:
  assumes "0 < a"
  shows "2 ^ 52 \<le> a / ulp a" and "a / ulp a < 2 ^ 53"
proof -
  note b = binary_exponent_bounds [OF assms]
  have "ulp a * 2 ^ 52 \<le> a" unfolding ulp_def two_powi_52 by (rule b(1))
  then show "2 ^ 52 \<le> a / ulp a" by (simp add: field_simps)
  have "a < ulp a * 2 ^ 53" unfolding ulp_def two_powi_53 by (rule b(2))
  then show "a / ulp a < 2 ^ 53" by (simp add: field_simps)
qed

lemma rhe_scaled_bounds:
  assumes "0 < a"
  shows "2 ^ 52 \<le> round_half_even (a / ulp a)" and "round_half_even (a / ulp a) \<le> 2 ^ 53"
proof -
  note s = scaled_bounds [OF assms]
  have "round_half_even (of_int (2 ^ 52)) \<le> round_half_even (a / ulp a)"
    using s(1) by (intro rhe_mono) simp
  then show "2 ^ 52 \<le> round_half_even (a / ulp a)" by (simp only: rhe_of_int)
  have "round_half_even (a / ulp a) \<le> round_half_even (of_int (2 ^ 53))"
    using s(2) by (intro rhe_mono) simp
  then show "round_half_even (a / ulp a) \<le> 2 ^ 53" by (simp only: rhe_of_int)
qed

lemma fl_pos_bounds:
  assumes "0 < a"
  shows "2 powi binary_exponent a \<le> fl a" and "fl a \<le> 2 powi (binary_exponent a + 1)"
proof -
  note r = rhe_scaled_bounds [OF assms]
  have "(2::real) ^ 52 \<le> of_int (round_half_even (a / ulp a))"
    using r(1) by (metis of_int_le_iff of_int_numeral of_int_power)
  then have "ulp a * 2 ^ 52 \<le> fl a"
    unfolding fl_pos_eq [OF assms] by (simp add: mult.commute)
  then show "2 powi binary_exponent a \<le> fl a" unfolding ulp_def two_powi_52 .
  have "of_int (round_half_even (a / ulp a)) \<le> (2::real) ^ 53"
    using r(2) by (metis of_int_le_iff of_int_numeral of_int_power)
  then have "fl a \<le> ulp a * 2 ^ 53"
    unfolding fl_pos_eq [OF assms] by (simp add: mult.commute)
  then show "fl a \<le> 2 powi (binary_exponent a + 1)" unfolding ulp_def two_powi_53 .
qed

lemma fl_pos_pos: "0 < a \<Longrightarrow> 0 < fl a"
  using fl_pos_bounds(1) [of a] two_powi_pos [of "binary_exponent a"] by linarith

lemma binary_exponent_mono:
  assumes "0 < a" and "a \<le> b"
  shows "binary_exponent a \<le> binary_exponent b"
proof -
  have b: "0 < b" using assms by simp
  have "(2::real) powi binary_exponent a < 2 powi (binary_exponent b + 1)"
    using binary_exponent_bounds(1) [OF assms(1)] binary_exponent_bounds(2) [OF b] assms(2)
    by linarith
  then have "binary_exponent a < binary_exponent b + 1" by (rule two_powi_less_cancel)
  then show ?thesis by simp
qed

lemma fl_pos_mono:
  assumes "0 < a" and "a \<le> b"
  shows "fl a \<le> fl b"
proof (cases "binary_exponent a = binary_exponent b")
  case True
  have b: "0 < b" using assms by simp
  have u: "ulp a = ulp b" by (simp add: ulp_def True)
  have "a / ulp b \<le> b / ulp b" by (rule divide_right_mono [OF assms(2) ulp_nonneg])
  then have "round_half_even (a / ulp b) \<le> round_half_even (b / ulp b)" by (rule rhe_mono)
  then show ?thesis
    unfolding fl_pos_eq [OF assms(1)] fl_pos_eq [OF b] u by (simp add: mult_right_mono)
next
  case False
  have b: "0 < b" using assms by simp
  from False binary_exponent_mono [OF assms] have "binary_exponent a + 1 \<le> binary_exponent b"
    by simp
  then have "(2::real) powi (binary_exponent a + 1) \<le> 2 powi binary_exponent b"
    by (intro power_int_increasing) simp_all
  with fl_pos_bounds(2) [OF assms(1)] fl_pos_bounds(1) [OF b] show ?thesis by linarith
qed

lemma fl_mono:
  assumes "x \<le> y"
  shows "fl x \<le> fl y"
proof -
  consider "0 < x" | "x = 0" | "x < 0" by linarith
  then show ?thesis
  proof cases
    case 1
    then show ?thesis using assms by (rule fl_pos_mono)
  next
    case 2
    show ?thesis
    proof (cases "y = 0")
      case True
      with 2 show ?thesis by simp
    next
      case False
      with 2 assms have "0 < y" by simp
      from fl_pos_pos [OF this] 2 show ?thesis by simp
    qed
  next
    case 3
    then have nx: "0 < fl (- x)" by (intro fl_pos_pos) simp
    consider "0 < y" | "y = 0" | "y < 0" by linarith
    then show ?thesis
    proof cases
      case 1
      from fl_pos_pos [OF this] nx show ?thesis by (simp add: fl_neg_eq [OF 3])
    next
      case 2
      with nx show ?thesis by (simp add: fl_neg_eq [OF 3])
    next
      case y: 3
      have "fl (- y) \<le> fl (- x)" using y assms by (intro fl_pos_mono) simp_all
      then show ?thesis by (simp add: fl_neg_eq [OF 3] fl_neg_eq [OF y])
    qed
  qed
qed

text \<open>The rounding error is at most half a unit in the last place, hence at most \<open>2\<^sup>-\<^sup>5\<^sup>3\<close> of the value.\<close>

lemma half_ulp_le:
  assumes "0 < a"
  shows "ulp a / 2 \<le> a / 2 ^ 53"
proof -
  have "ulp a * 2 ^ 52 \<le> a"
    unfolding ulp_def two_powi_52 by (rule binary_exponent_bounds(1) [OF assms])
  then show ?thesis by simp
qed

lemma fl_pos_error:
  assumes "0 < a"
  shows "\<bar>fl a - a\<bar> \<le> a / 2 ^ 53"
proof -
  have "\<bar>of_int (round_half_even (a / ulp a)) - a / ulp a\<bar> \<le> 1 / 2" by (rule rhe_error)
  then have "\<bar>of_int (round_half_even (a / ulp a)) - a / ulp a\<bar> * ulp a \<le> 1 / 2 * ulp a"
    by (intro mult_right_mono) simp_all
  moreover have "\<bar>of_int (round_half_even (a / ulp a)) - a / ulp a\<bar> * ulp a = \<bar>fl a - a\<bar>"
  proof -
    have "\<bar>of_int (round_half_even (a / ulp a)) - a / ulp a\<bar> * ulp a
        = \<bar>(of_int (round_half_even (a / ulp a)) - a / ulp a) * ulp a\<bar>"
      by (simp add: abs_mult)
    also have "(of_int (round_half_even (a / ulp a)) - a / ulp a) * ulp a = fl a - a"
      unfolding fl_pos_eq [OF assms] by (simp add: left_diff_distrib)
    finally show ?thesis .
  qed
  ultimately have "\<bar>fl a - a\<bar> \<le> ulp a / 2" by simp
  with half_ulp_le [OF assms] show ?thesis by linarith
qed

lemma fl_error: "\<bar>fl x - x\<bar> \<le> \<bar>x\<bar> / 2 ^ 53"
proof -
  consider "0 < x" | "x = 0" | "x < 0" by linarith
  then show ?thesis
  proof cases
    case 1
    with fl_pos_error [OF 1] show ?thesis by simp
  next
    case 2
    then show ?thesis by simp
  next
    case 3
    then have "\<bar>fl (- x) - (- x)\<bar> \<le> (- x) / 2 ^ 53" by (intro fl_pos_error) simp
    then show ?thesis using 3 by (simp add: fl_minus abs_if split: if_splits)
  qed
qed


text \<open>Multiples of a power of two with fewer than 54 bits are binary64 values.\<close>

lemma fl_representable_pos:
  assumes k: "0 < k" "k < 2 ^ 53"
  shows "fl (of_int k * 2 powi j) = of_int k * 2 powi j"
proof -
  define z :: real where "z = of_int k * 2 powi j"
  have z: "0 < z" using k(1) by (simp add: z_def)
  define e where "e = binary_exponent z"
  have "of_int k < (2::real) ^ 53"
    using k(2) by (metis of_int_less_iff of_int_numeral of_int_power)
  then have "z < 2 ^ 53 * 2 powi j" by (simp add: z_def)
  also have "\<dots> = 2 powi (53 + j)" by (subst power_int_add) simp_all
  finally have "(2::real) powi e < 2 powi (53 + j)"
    using binary_exponent_bounds(1) [OF z] unfolding e_def by linarith
  then have "e < 53 + j" by (rule two_powi_less_cancel)
  then have n: "0 \<le> j - e + 52" by simp
  define n where "n = nat (j - e + 52)"
  have "z / ulp z = of_int k * (2 powi j / 2 powi (e - 52))"
    by (simp add: z_def ulp_def e_def)
  also have "2 powi j / 2 powi (e - 52) = (2::real) powi (j - (e - 52))"
    by (subst power_int_diff) simp_all
  also have "j - (e - 52) = int n" using n by (simp add: n_def)
  also have "of_int k * (2::real) powi int n = of_int (k * 2 ^ n)" by simp
  finally have q: "z / ulp z = of_int (k * 2 ^ n)" .
  have "fl z = of_int (k * 2 ^ n) * ulp z"
    unfolding fl_pos_eq [OF z] q rhe_of_int ..
  also have "\<dots> = z / ulp z * ulp z" unfolding q ..
  also have "\<dots> = z" by simp
  finally show ?thesis unfolding z_def .
qed

lemma fl_representable:
  assumes "\<bar>k\<bar> \<le> 2 ^ 53"
  shows "fl (of_int k * 2 powi j) = of_int k * 2 powi j"
proof -
  have pos: "fl (of_int m * 2 powi i) = of_int m * 2 powi i" if "0 < m" "m \<le> 2 ^ 53" for m i
  proof (cases "m = 2 ^ 53")
    case True
    have "of_int m * (2::real) powi i = of_int (2 ^ 52) * 2 powi (i + 1)"
      unfolding True by (subst power_int_add) simp_all
    moreover have "fl (of_int (2 ^ 52) * 2 powi (i + 1)) = of_int (2 ^ 52) * 2 powi (i + 1)"
      by (rule fl_representable_pos) simp_all
    ultimately show ?thesis by simp
  next
    case False
    with that have "m < 2 ^ 53" by simp
    with that(1) show ?thesis by (rule fl_representable_pos)
  qed
  consider "0 < k" | "k = 0" | "k < 0" by linarith
  then show ?thesis
  proof cases
    case 1
    with assms pos [of k j] show ?thesis by simp
  next
    case 2
    then show ?thesis by simp
  next
    case 3
    with assms pos [of "- k" j] have "fl (of_int (- k) * 2 powi j) = of_int (- k) * 2 powi j"
      by simp
    then have "fl (- (of_int k * 2 powi j)) = - (of_int k * 2 powi j)" by simp
    then show ?thesis unfolding fl_minus by simp
  qed
qed

lemma fl_of_int: "\<bar>k\<bar> \<le> 2 ^ 53 \<Longrightarrow> fl (of_int k) = of_int k"
  using fl_representable [of k 0] by simp

lemma fl_pos_form:
  assumes "0 < a"
  obtains k where "fl a = of_int k * ulp a" and "0 < k" and "k \<le> 2 ^ 53"
proof
  show "fl a = of_int (round_half_even (a / ulp a)) * ulp a" by (rule fl_pos_eq [OF assms])
  show "round_half_even (a / ulp a) \<le> 2 ^ 53" by (rule rhe_scaled_bounds(2) [OF assms])
  have "(0::int) < 2 ^ 52" by simp
  also have "\<dots> \<le> round_half_even (a / ulp a)" by (rule rhe_scaled_bounds(1) [OF assms])
  finally show "0 < round_half_even (a / ulp a)" .
qed

lemma fl_idem [simp]: "fl (fl x) = fl x"
proof -
  have pos: "fl (fl a) = fl a" if "0 < a" for a
  proof -
    from fl_pos_form [OF that] obtain k where k: "fl a = of_int k * ulp a" "0 < k" "k \<le> 2 ^ 53" .
    have "fl (of_int k * 2 powi (binary_exponent a - 52)) = of_int k * 2 powi (binary_exponent a - 52)"
      using k(2,3) by (intro fl_representable) simp
    then show ?thesis unfolding k(1) ulp_def .
  qed
  consider "0 < x" | "x = 0" | "x < 0" by linarith
  then show ?thesis
  proof cases
    case 1
    then show ?thesis by (rule pos)
  next
    case 2
    then show ?thesis by simp
  next
    case 3
    then have "fl (fl (- x)) = fl (- x)" by (intro pos) simp
    then show ?thesis by (simp add: fl_minus)
  qed
qed



lemma fl_one [simp]: "fl 1 = 1"
  using fl_of_int [of 1] by simp

lemma fl_nonneg: "0 \<le> x \<Longrightarrow> 0 \<le> fl x"
  using fl_mono [of 0 x] by simp

lemma fl_abs: "fl \<bar>x\<bar> = \<bar>fl x\<bar>"
proof (cases "0 \<le> x")
  case True
  with fl_nonneg [OF True] show ?thesis by simp
next
  case False
  then have "0 \<le> fl (- x)" by (intro fl_nonneg) simp
  with False show ?thesis by (simp add: fl_minus)
qed




lemma py_round_float_mono: "x \<le> y \<Longrightarrow> py_round_float x n \<le> py_round_float y n"
  unfolding py_round_float_def by (intro fl_mono py_round_mono)

lemma py_round_float_of_int: "\<bar>k\<bar> \<le> 2 ^ 53 \<Longrightarrow> py_round_float (of_int k) n = of_int k"
  unfolding py_round_float_def py_round_of_int by (rule fl_of_int)

lemma py_round_float_bounds:
  assumes "of_int a \<le> x" and "x \<le> of_int b" and "\<bar>a\<bar> \<le> 2 ^ 53" and "\<bar>b\<bar> \<le> 2 ^ 53"
  shows "of_int a \<le> py_round_float x n" and "py_round_float x n \<le> of_int b"
  using py_round_float_mono [OF assms(1), of n] py_round_float_mono [OF assms(2), of n]
    py_round_float_of_int [OF assms(3), of n] py_round_float_of_int [OF assms(4), of n]
  by simp_all

section \<open>Sequencing and list lemmas\<close>

lemma try_bind_simps [simp]:
  "try_bind (Inl err) f = Inl err"
  "try_bind (Inr v) f = f v"
  by (simp_all add: try_bind_def)

lemma try_bind_Inr_iff: "try_bind m f = Inr y \<longleftrightarrow> (\<exists>v. m = Inr v \<and> f v = Inr y)"
  by (cases m) simp_all

lemma expiry_days_ints:
  "expiry_days (map VInt es) t
     = Inr (map (\<lambda>e. days_to_expiry e t) (filter (\<lambda>e. e > t + 86400) es))"
  by (induction es) simp_all

lemma sorted_last_Max: "sorted xs \<Longrightarrow> xs \<noteq> [] \<Longrightarrow> last xs = Max (set xs)"
  for xs :: "int list"
proof (induction xs)
  case Nil
  then show ?case by simp
next
  case (Cons x xs)
  show ?case
  proof (cases "xs = []")
    case True
    then show ?thesis by simp
  next
    case False
    with Cons have "last xs = Max (set xs)" by simp
    moreover have "x \<le> Max (set xs)"
      using Cons.prems False by (metis List.finite_set Max_ge last_in_set calculation sorted_simps(2))
    ultimately show ?thesis using False by (simp add: max_def)
  qed
qed

lemma sorted_hd_Min: "sorted xs \<Longrightarrow> xs \<noteq> [] \<Longrightarrow> hd xs = Min (set xs)"
  for xs :: "int list"
  by (cases xs) (auto intro!: Min_eqI [symmetric])

lemma sorted_filter_int: "sorted xs \<Longrightarrow> sorted (filter P xs)"
  for xs :: "int list"
  by (induction xs) auto

lemmas fl_eval = fl_def binary_exponent_def bit_length.simps round_half_even_def py_int_def
  days_to_expiry_def expiry_from_days_def

section \<open>Properties of the choice of expiries\<close>

text \<open>
  What \<^verbatim>\<open>pick_expiries\<close> computes on an expiry list in ascending order with at least one expiry
  more than one day after the reference time: \<open>e1\<close> comes from the largest future expiry whose
  time to expiry is at most 30 days if there is one, else from the smallest future expiry whose
  time to expiry is at least 30 days, and \<open>e2\<close> from the smallest of the latter if there is one,
  else from the largest of the former. The time to expiry is the float
  \<^verbatim>\<open>(e - t_now_unix)/86400.0\<close>, and \<open>e1\<close>, \<open>e2\<close> are \<^verbatim>\<open>t_now_unix + int(d*86400)\<close> of the two
  chosen times.
\<close>

lemma pick_expiries_ascending:
  assumes "sorted es" and "\<exists>e\<in>set es. e > t + 86400"
  shows "let F = {e \<in> set es. e > t + 86400};
             B = {e \<in> F. days_to_expiry e t \<le> 30};
             A = {e \<in> F. days_to_expiry e t \<ge> 30};
             x1 = (if B \<noteq> {} then Max B else Min A);
             x2 = (if A \<noteq> {} then Min A else Max B)
         in pick_expiries (VList (map VInt es)) t 30
              = Inr (VInt (expiry_from_days t (days_to_expiry x1 t)),
                     VInt (expiry_from_days t (days_to_expiry x2 t)))
            \<and> x1 \<in> F \<and> x2 \<in> F
            \<and> (B \<noteq> {} \<and> A \<noteq> {} \<longrightarrow> days_to_expiry x1 t \<le> 30 \<and> 30 \<le> days_to_expiry x2 t)"
proof -
  define dy where "dy = (\<lambda>e. days_to_expiry e t)"
  define Fl where "Fl = filter (\<lambda>e. e > t + 86400) es"
  define Bl where "Bl = filter (\<lambda>e. dy e \<le> 30) Fl"
  define Al where "Al = filter (\<lambda>e. dy e \<ge> 30) Fl"
  define F where "F = {e \<in> set es. e > t + 86400}"
  define B where "B = {e \<in> F. days_to_expiry e t \<le> 30}"
  define A where "A = {e \<in> F. days_to_expiry e t \<ge> 30}"
  define x1 where "x1 = (if B \<noteq> {} then Max B else Min A)"
  define x2 where "x2 = (if A \<noteq> {} then Min A else Max B)"
  have setF: "set Fl = F" by (auto simp add: Fl_def F_def)
  have setB: "set Bl = B" by (auto simp add: Bl_def B_def setF dy_def)
  have setA: "set Al = A" by (auto simp add: Al_def A_def setF dy_def)
  have sF: "sorted Fl" unfolding Fl_def using assms(1) by (rule sorted_filter_int)
  have sB: "sorted Bl" unfolding Bl_def using sF by (rule sorted_filter_int)
  have sA: "sorted Al" unfolding Al_def using sF by (rule sorted_filter_int)
  have Fne: "Fl \<noteq> []" using assms(2) by (auto simp add: Fl_def filter_empty_conv)
  have cover: "Bl \<noteq> [] \<or> Al \<noteq> []"
  proof -
    from Fne obtain e where "e \<in> set Fl" by (cases Fl) auto
    then have "e \<in> set Bl \<or> e \<in> set Al" by (auto simp add: Bl_def Al_def)
    then show ?thesis by auto
  qed
  have Bne: "Bl \<noteq> [] \<longleftrightarrow> B \<noteq> {}" using setB by auto
  have Ane: "Al \<noteq> [] \<longleftrightarrow> A \<noteq> {}" using setA by auto
  have lastB: "Bl \<noteq> [] \<Longrightarrow> last Bl = Max B" using sorted_last_Max [OF sB] setB by simp
  have hdA: "Al \<noteq> [] \<Longrightarrow> hd Al = Min A" using sorted_hd_Min [OF sA] setA by simp
  have days: "expiry_days (map VInt es) t = Inr (map dy Fl)"
    by (simp add: expiry_days_ints dy_def Fl_def)
  have below: "filter (\<lambda>d. d \<le> 30) (map dy Fl) = map dy Bl"
    by (simp add: filter_map Bl_def comp_def)
  have above: "filter (\<lambda>d. d \<ge> 30) (map dy Fl) = map dy Al"
    by (simp add: filter_map Al_def comp_def)
  have d1: "(if map dy Bl \<noteq> [] then py_last (map dy Bl) else py_first (map dy Al)) = Inr (dy x1)"
    using cover lastB hdA Bne Ane by (auto simp add: py_last_def py_first_def last_map hd_map x1_def)
  have d2: "(if map dy Al \<noteq> [] then py_first (map dy Al) else py_last (map dy Bl)) = Inr (dy x2)"
    using cover lastB hdA Bne Ane by (auto simp add: py_last_def py_first_def last_map hd_map x2_def)
  have pick: "pick_expiries (VList (map VInt es)) t 30
        = Inr (VInt (expiry_from_days t (dy x1)), VInt (expiry_from_days t (dy x2)))"
  proof -
    have ne: "map dy Fl \<noteq> []" using Fne by simp
    show ?thesis
      unfolding pick_expiries_def
      by (simp only: py_iter.simps try_bind_simps days below above Let_def ne if_False d1 d2)
  qed
  have x1B: "B \<noteq> {} \<Longrightarrow> x1 \<in> B"
    using Max_in [of B] setB by (metis List.finite_set x1_def)
  have x1A: "B = {} \<Longrightarrow> x1 \<in> A"
    using Min_in [of A] setA cover Bne Ane by (metis List.finite_set x1_def)
  have x2A: "A \<noteq> {} \<Longrightarrow> x2 \<in> A"
    using Min_in [of A] setA by (metis List.finite_set x2_def)
  have x2B: "A = {} \<Longrightarrow> x2 \<in> B"
    using Max_in [of B] setB cover Bne Ane by (metis List.finite_set x2_def)
  have mem: "x1 \<in> F" "x2 \<in> F"
    using x1A x1B x2A x2B by (auto simp add: A_def B_def)
  have br: "B \<noteq> {} \<and> A \<noteq> {} \<longrightarrow> days_to_expiry x1 t \<le> 30 \<and> 30 \<le> days_to_expiry x2 t"
    using x1B x2A by (auto simp add: A_def B_def)
  show ?thesis
    unfolding Let_def F_def [symmetric] B_def [symmetric] A_def [symmetric]
      x1_def [symmetric] x2_def [symmetric]
    using pick mem br by (simp add: dy_def)
qed

text \<open>
  Claim C1 asks that \<open>e1\<close> and \<open>e2\<close> be members of the chain's list of expiries. The code does
  not return the chosen members: it returns \<^verbatim>\<open>t_now_unix + int(d*86400)\<close> for their float
  times to expiry \<open>d\<close>, and the product \<^verbatim>\<open>d*86400\<close> can fall just below the whole number of
  seconds. At the reference time \<open>1700000000\<close>, for the ascending list of the expiries
  \<open>1701388800\<close> and \<open>1703808000\<close> (both midnight UTC, about 16 and 44 days later, one on each
  side of the target), \<^verbatim>\<open>int((1388800/86400.0)*86400)\<close> is \<open>1388799\<close>: the value returned as
  \<open>e1\<close> is \<open>1701388799\<close>, which is not a member of the list, and \<open>e2\<close> is the member
  \<open>1703808000\<close>.
\<close>

theorem pick_expiries_not_member:
  "sorted [1701388800, 1703808000 :: int]
   \<and> (1701388800 :: int) > 1700000000 + 86400
   \<and> days_to_expiry 1701388800 1700000000 \<le> 30
   \<and> 30 \<le> days_to_expiry 1703808000 1700000000
   \<and> pick_expiries (VList [VInt 1701388800, VInt 1703808000]) 1700000000 30
        = Inr (VInt 1701388799, VInt 1703808000)
   \<and> (1701388799 :: int) \<notin> set [1701388800, 1703808000]"
  by (simp add: pick_expiries_def py_last_def py_first_def fl_eval)

section \<open>Stages of the estimator\<close>

lemma expiry_iv_steps:
  assumes "expiry_iv fetch quote spot e = Inr iv"
  obtains j c ivc p ivp where "fetch_bucket fetch quote e = Inr j"
    and "dict_get j ''calls'' (VList []) = Inr c" and "nearest_atm_iv c spot = Inr ivc"
    and "dict_get j ''puts'' (VList []) = Inr p" and "nearest_atm_iv p spot = Inr ivp"
    and "call_put_iv ivc ivp = Inr iv"
  using assms unfolding expiry_iv_def try_bind_Inr_iff by blast

lemma fetch_ivs_from_expiry_iv:
  assumes "expiry_iv fetch quote spot e1 = Inr iv1" and "expiry_iv fetch quote spot e2 = Inr iv2"
  shows "fetch_ivs fetch quote spot e1 e2 = Inr (iv1, iv2)"
proof -
  from assms(1) obtain j1 c1 iv1c p1 iv1p where 1: "fetch_bucket fetch quote e1 = Inr j1"
    "dict_get j1 ''calls'' (VList []) = Inr c1" "nearest_atm_iv c1 spot = Inr iv1c"
    "dict_get j1 ''puts'' (VList []) = Inr p1" "nearest_atm_iv p1 spot = Inr iv1p"
    "call_put_iv iv1c iv1p = Inr iv1"
    by (rule expiry_iv_steps)
  from assms(2) obtain j2 c2 iv2c p2 iv2p where 2: "fetch_bucket fetch quote e2 = Inr j2"
    "dict_get j2 ''calls'' (VList []) = Inr c2" "nearest_atm_iv c2 spot = Inr iv2c"
    "dict_get j2 ''puts'' (VList []) = Inr p2" "nearest_atm_iv p2 spot = Inr iv2p"
    "call_put_iv iv2c iv2p = Inr iv2"
    by (rule expiry_iv_steps)
  show ?thesis unfolding fetch_ivs_def by (simp only: 1 2 try_bind_simps)
qed

lemma expiry_iv_from_fetch_ivs:
  assumes "fetch_ivs fetch quote spot e1 e2 = Inr (iv1, iv2)"
  shows "expiry_iv fetch quote spot e1 = Inr iv1 \<and> expiry_iv fetch quote spot e2 = Inr iv2"
proof -
  from assms obtain j1 j2 c1 iv1c p1 iv1p c2 iv2c p2 iv2p where
    s: "fetch_bucket fetch quote e1 = Inr j1" "fetch_bucket fetch quote e2 = Inr j2"
    "dict_get j1 ''calls'' (VList []) = Inr c1" "nearest_atm_iv c1 spot = Inr iv1c"
    "dict_get j1 ''puts'' (VList []) = Inr p1" "nearest_atm_iv p1 spot = Inr iv1p"
    "dict_get j2 ''calls'' (VList []) = Inr c2" "nearest_atm_iv c2 spot = Inr iv2c"
    "dict_get j2 ''puts'' (VList []) = Inr p2" "nearest_atm_iv p2 spot = Inr iv2p"
    "call_put_iv iv1c iv1p = Inr iv1" "call_put_iv iv2c iv2p = Inr iv2"
    unfolding fetch_ivs_def try_bind_Inr_iff by blast
  show ?thesis unfolding expiry_iv_def by (simp only: s try_bind_simps)
qed

lemma pick_expiries_shape:
  assumes "pick_expiries exp_unix t target = Inr (e1, e2)"
  shows "(e1 = VNone \<and> e2 = VNone) \<or> (\<exists>i j. e1 = VInt i \<and> e2 = VInt j)"
  using assms
  by (auto simp add: pick_expiries_def try_bind_Inr_iff Let_def split: if_splits)

lemma chain_head_shape:
  assumes "chain_head chain when = Inr (Some (quote, spot, e1, e2))"
  shows "\<exists>i j. e1 = VInt i \<and> e2 = VInt j \<and> i \<noteq> 0 \<and> j \<noteq> 0"
proof -
  from assms obtain exp_unix where p: "pick_expiries exp_unix (py_int when) 30 = Inr (e1, e2)"
    and t: "truthy e1" "truthy e2"
    by (auto simp add: chain_head_def try_bind_Inr_iff Let_def split: if_splits)
  from pick_expiries_shape [OF p] t show ?thesis by auto
qed

lemma iv30_body_staged:
  assumes "chain_head chain when = Inr (Some (quote, spot, e1, e2))"
    and "expiry_iv fetch quote spot e1 = Inr iv1"
    and "expiry_iv fetch quote spot e2 = Inr iv2"
  shows "iv30_body fetch chain when = combine_ivs iv1 iv2 e1 e2 (py_int when)"
proof -
  have "fetch_ivs fetch quote spot e1 e2 = Inr (iv1, iv2)"
    using assms(2,3) by (rule fetch_ivs_from_expiry_iv)
  then show ?thesis using assms(1) by (simp add: iv30_body_def)
qed

section \<open>The example chain\<close>

lemmas example_defs = example_quote_def example_chain_def example_response_def example_fetch_def

lemma example_head:
  "chain_head (example_chain example_quote (VList [VInt 864000, VInt 4320000])) 0
     = Inr (Some (example_quote, VFloat 100, VInt 864000, VInt 4320000))"
  by (simp add: chain_head_def chain_result_def example_defs pick_expiries_def
      py_last_def py_first_def fl_eval)

lemma example_expiry_iv:
  "expiry_iv (example_fetch (Inr (example_response c1 p1)) (Inr (example_response c2 p2)))
      example_quote (VFloat 100) (VInt 864000)
     = try_bind (nearest_atm_iv (VList [VDict [(''strike'', VFloat 101), (''impliedVolatility'', c1)]]) (VFloat 100)) (\<lambda>ivc.
       try_bind (nearest_atm_iv (VList [VDict [(''strike'', VFloat 99), (''impliedVolatility'', p1)]]) (VFloat 100)) (\<lambda>ivp.
         call_put_iv ivc ivp))"
  "expiry_iv (example_fetch (Inr (example_response c1 p1)) (Inr (example_response c2 p2)))
      example_quote (VFloat 100) (VInt 4320000)
     = try_bind (nearest_atm_iv (VList [VDict [(''strike'', VFloat 101), (''impliedVolatility'', c2)]]) (VFloat 100)) (\<lambda>ivc.
       try_bind (nearest_atm_iv (VList [VDict [(''strike'', VFloat 99), (''impliedVolatility'', p2)]]) (VFloat 100)) (\<lambda>ivp.
         call_put_iv ivc ivp))"
  by (simp_all add: expiry_iv_def fetch_bucket_def bucket_of_def chain_result_def example_defs)

lemmas iv_eval = nearest_atm_iv_def in_none_zero_def py_sub_def call_put_iv_def

lemma example_single_value:
  "iv30_from_yahoo
         (example_fetch (Inr (example_response (VFloat (2/10)) (VFloat (4/10))))
                        (Inr (example_response VNone (VInt 0))))
         (example_chain example_quote (VList [VInt 864000, VInt 4320000])) 0 = VFloat (3/10)"
proof -
  have a: "expiry_iv (example_fetch (Inr (example_response (VFloat (2/10)) (VFloat (4/10))))
                        (Inr (example_response VNone (VInt 0))))
             example_quote (VFloat 100) (VInt 864000) = Inr (VFloat (3/10))"
     "expiry_iv (example_fetch (Inr (example_response (VFloat (2/10)) (VFloat (4/10))))
                        (Inr (example_response VNone (VInt 0))))
             example_quote (VFloat 100) (VInt 4320000) = Inr VNone"
    by (simp_all add: example_expiry_iv iv_eval)
  show ?thesis
    unfolding iv30_from_yahoo_def iv30_body_staged [OF example_head a]
    by (simp add: combine_ivs_def)
qed

lemma example_fetch_ok:
  "fetch_ok (example_fetch (Inr (example_response (VFloat (2/10)) (VFloat (4/10))))
                           (Inr (example_response VNone (VInt 0))))"
  by (simp add: fetch_ok_def example_defs response_ok_def bucket_of_def chain_result_def
      rows_ok_def iv_field_ok_def)

section \<open>Properties of the estimator\<close>

text \<open>
  Claim C2. When both selected expiries yield an implied volatility, numbers \<open>iv1\<close> and \<open>iv2\<close>, the
  estimator returns \<open>sqrt(max(1e-10, varT / Tt))\<close>, where \<open>T1\<close> and \<open>T2\<close> are the year fractions
  of the two expiries (over a year of 365.25 days, floored at \<open>1e-6\<close>), \<open>Tt = 30/365.25\<close>,
  \<open>var\<^sub>i = iv\<^sub>i\<^sup>2 * T\<^sub>i\<close>, \<open>alpha = (Tt - T1)/(T2 - T1)\<close> except \<open>alpha = 0.5\<close> when
  \<open>|T2 - T1| \<le> 1e-9\<close>, and \<open>varT = var1 + (var2 - var1) * alpha\<close>.
\<close>

theorem interpolated_result:
  assumes "chain_head chain when = Inr (Some (quote, spot, e1, e2))"
    and "expiry_iv fetch quote spot e1 = Inr iv1"
    and "expiry_iv fetch quote spot e2 = Inr iv2"
    and "num_of iv1 = Some a" and "num_of iv2 = Some b"
  shows "\<exists>i1 i2. e1 = VInt i1 \<and> e2 = VInt i2
       \<and> iv30_from_yahoo fetch chain when =
           VFloat (let t_now = py_int when;
                       T1 = max (1 / 10 ^ 6) (of_int (i1 - t_now) / (36525 / 100 * 86400));
                       T2 = max (1 / 10 ^ 6) (of_int (i2 - t_now) / (36525 / 100 * 86400));
                       Tt = 30 / (36525 / 100);
                       var1 = a\<^sup>2 * T1;
                       var2 = b\<^sup>2 * T2;
                       alpha = (if \<bar>T2 - T1\<bar> \<le> 1 / 10 ^ 9 then 1 / 2 else (Tt - T1) / (T2 - T1));
                       varT = var1 + (var2 - var1) * alpha
                   in sqrt (max (1 / 10 ^ 10) (varT / Tt)))"
proof -
  from chain_head_shape [OF assms(1)] obtain i1 i2 where e: "e1 = VInt i1" "e2 = VInt i2"
    by auto
  define T1 where "T1 = max (1 / 10 ^ 6) (real_of_int (i1 - py_int when) / (36525 / 100 * 86400))"
  define T2 where "T2 = max (1 / 10 ^ 6) (real_of_int (i2 - py_int when) / (36525 / 100 * 86400))"
  have year: "(36525 / 100 * 86400 :: real) = 31557600" by simp
  have n: "iv1 \<noteq> VNone" "iv2 \<noteq> VNone" using assms(4,5) by auto
  have "combine_ivs iv1 iv2 (VInt i1) (VInt i2) (py_int when) = Inr (VFloat (interpolate_iv30 a b T1 T2))"
    using n assms(4,5) by (simp add: combine_ivs_def py_sub_def T1_def T2_def year)
  then have r: "iv30_from_yahoo fetch chain when = VFloat (interpolate_iv30 a b T1 T2)"
    unfolding iv30_from_yahoo_def iv30_body_staged [OF assms(1,2,3)] e by simp
  have "interpolate_iv30 a b T1 T2 =
          (let Tt = 30 / (36525 / 100);
               var1 = a\<^sup>2 * T1;
               var2 = b\<^sup>2 * T2;
               alpha = (if \<bar>T2 - T1\<bar> \<le> 1 / 10 ^ 9 then 1 / 2 else (Tt - T1) / (T2 - T1));
               varT = var1 + (var2 - var1) * alpha
           in sqrt (max (1 / 10 ^ 10) (varT / Tt)))"
  proof (cases "\<bar>T2 - T1\<bar> \<le> 1 / 10 ^ 9")
    case True
    then have "\<not> \<bar>T2 - T1\<bar> > 1 / 10 ^ 9" by simp
    with True show ?thesis
      unfolding interpolate_iv30_def Let_def power2_eq_square by (simp only: if_True if_False)
  next
    case False
    then have "\<bar>T2 - T1\<bar> > 1 / 10 ^ 9" by simp
    with False show ?thesis
      unfolding interpolate_iv30_def Let_def power2_eq_square by (simp only: if_True if_False)
  qed
  then have "iv30_from_yahoo fetch chain when =
           VFloat (let t_now = py_int when;
                       T1 = max (1 / 10 ^ 6) (of_int (i1 - t_now) / (36525 / 100 * 86400));
                       T2 = max (1 / 10 ^ 6) (of_int (i2 - t_now) / (36525 / 100 * 86400));
                       Tt = 30 / (36525 / 100);
                       var1 = a\<^sup>2 * T1;
                       var2 = b\<^sup>2 * T2;
                       alpha = (if \<bar>T2 - T1\<bar> \<le> 1 / 10 ^ 9 then 1 / 2 else (Tt - T1) / (T2 - T1));
                       varT = var1 + (var2 - var1) * alpha
                   in sqrt (max (1 / 10 ^ 10) (varT / Tt)))"
    unfolding r Let_def T1_def T2_def by (rule arg_cong)
  with e show ?thesis by blast
qed

text \<open>
  The theorem on the example chain: implied volatilities \<open>0.3\<close> at 10 days and \<open>0.5\<close> at 50
  days give \<open>sqrt(67/300)\<close>.
\<close>

theorem interpolated_result_witness:
  "chain_head (example_chain example_quote (VList [VInt 864000, VInt 4320000])) 0
     = Inr (Some (example_quote, VFloat 100, VInt 864000, VInt 4320000))
   \<and> expiry_iv (example_fetch (Inr (example_response (VFloat (2/10)) (VFloat (4/10))))
                               (Inr (example_response (VFloat (5/10)) VNone)))
        example_quote (VFloat 100) (VInt 864000) = Inr (VFloat (3/10))
   \<and> expiry_iv (example_fetch (Inr (example_response (VFloat (2/10)) (VFloat (4/10))))
                               (Inr (example_response (VFloat (5/10)) VNone)))
        example_quote (VFloat 100) (VInt 4320000) = Inr (VFloat (5/10))
   \<and> iv30_from_yahoo
         (example_fetch (Inr (example_response (VFloat (2/10)) (VFloat (4/10))))
                        (Inr (example_response (VFloat (5/10)) VNone)))
         (example_chain example_quote (VList [VInt 864000, VInt 4320000])) 0
       = VFloat (sqrt (67 / 300))"
proof -
  have a: "expiry_iv (example_fetch (Inr (example_response (VFloat (2/10)) (VFloat (4/10))))
                               (Inr (example_response (VFloat (5/10)) VNone)))
             example_quote (VFloat 100) (VInt 864000) = Inr (VFloat (3/10))"
     "expiry_iv (example_fetch (Inr (example_response (VFloat (2/10)) (VFloat (4/10))))
                               (Inr (example_response (VFloat (5/10)) VNone)))
             example_quote (VFloat 100) (VInt 4320000) = Inr (VFloat (5/10))"
    by (simp_all add: example_expiry_iv iv_eval)
  have n: "num_of (VFloat (3/10)) = Some (3/10)" "num_of (VFloat (5/10)) = Some (5/10)"
    by simp_all
  from interpolated_result [OF example_head a n]
  have "iv30_from_yahoo
         (example_fetch (Inr (example_response (VFloat (2/10)) (VFloat (4/10))))
                        (Inr (example_response (VFloat (5/10)) VNone)))
         (example_chain example_quote (VList [VInt 864000, VInt 4320000])) 0
       = VFloat (sqrt (67 / 300))"
    by (auto simp add: py_int_def Let_def power2_eq_square)
  with example_head a show ?thesis by simp
qed

text \<open>
  Claim C3. When exactly one of the two selected expiries yields an implied volatility, the
  estimator returns that value as it is; when neither does, it returns \<^verbatim>\<open>None\<close>.
\<close>

theorem single_iv_returned:
  assumes "chain_head chain when = Inr (Some (quote, spot, e1, e2))"
    and "expiry_iv fetch quote spot e1 = Inr iv1"
    and "expiry_iv fetch quote spot e2 = Inr iv2"
  shows "(iv1 \<noteq> VNone \<and> iv2 = VNone \<longrightarrow> iv30_from_yahoo fetch chain when = iv1)
       \<and> (iv1 = VNone \<and> iv2 \<noteq> VNone \<longrightarrow> iv30_from_yahoo fetch chain when = iv2)
       \<and> (iv1 = VNone \<and> iv2 = VNone \<longrightarrow> iv30_from_yahoo fetch chain when = VNone)"
  unfolding iv30_from_yahoo_def iv30_body_staged [OF assms]
  by (simp add: combine_ivs_def)

text \<open>
  The theorem on the example chain: a value at the first expiry only, at the second only, and
  at neither.
\<close>

theorem single_iv_returned_witness:
  "chain_head (example_chain example_quote (VList [VInt 864000, VInt 4320000])) 0
     = Inr (Some (example_quote, VFloat 100, VInt 864000, VInt 4320000))
   \<and> iv30_from_yahoo
         (example_fetch (Inr (example_response (VFloat (2/10)) (VFloat (4/10))))
                        (Inr (example_response VNone (VInt 0))))
         (example_chain example_quote (VList [VInt 864000, VInt 4320000])) 0 = VFloat (3/10)
   \<and> iv30_from_yahoo
         (example_fetch (Inr (example_response VNone (VInt 0)))
                        (Inr (example_response (VFloat (2/10)) VNone)))
         (example_chain example_quote (VList [VInt 864000, VInt 4320000])) 0 = VFloat (2/10)
   \<and> iv30_from_yahoo
         (example_fetch (Inr (example_response VNone (VInt 0)))
                        (Inr (example_response (VFloat 0) VNone)))
         (example_chain example_quote (VList [VInt 864000, VInt 4320000])) 0 = VNone"
proof -
  have a: "expiry_iv (example_fetch (Inr (example_response (VFloat (2/10)) (VFloat (4/10))))
                        (Inr (example_response VNone (VInt 0))))
             example_quote (VFloat 100) (VInt 864000) = Inr (VFloat (3/10))"
     "expiry_iv (example_fetch (Inr (example_response (VFloat (2/10)) (VFloat (4/10))))
                        (Inr (example_response VNone (VInt 0))))
             example_quote (VFloat 100) (VInt 4320000) = Inr VNone"
    by (simp_all add: example_expiry_iv iv_eval)
  have b: "expiry_iv (example_fetch (Inr (example_response VNone (VInt 0)))
                        (Inr (example_response (VFloat (2/10)) VNone)))
             example_quote (VFloat 100) (VInt 864000) = Inr VNone"
     "expiry_iv (example_fetch (Inr (example_response VNone (VInt 0)))
                        (Inr (example_response (VFloat (2/10)) VNone)))
             example_quote (VFloat 100) (VInt 4320000) = Inr (VFloat (2/10))"
    by (simp_all add: example_expiry_iv iv_eval)
  have c: "expiry_iv (example_fetch (Inr (example_response VNone (VInt 0)))
                        (Inr (example_response (VFloat 0) VNone)))
             example_quote (VFloat 100) (VInt 864000) = Inr VNone"
     "expiry_iv (example_fetch (Inr (example_response VNone (VInt 0)))
                        (Inr (example_response (VFloat 0) VNone)))
             example_quote (VFloat 100) (VInt 4320000) = Inr VNone"
    by (simp_all add: example_expiry_iv iv_eval)
  show ?thesis
    using single_iv_returned [OF example_head a] single_iv_returned [OF example_head b]
      single_iv_returned [OF example_head c] example_head
    by simp
qed

section \<open>Rounding error of the interpolation\<close>

lemma fl_err: "\<bar>fl x - x\<bar> \<le> \<bar>x\<bar> / 9007199254740992"
  using fl_error [of x] by simp

lemma fl_err_nonneg:
  assumes "0 \<le> x"
  shows "x - x / 9007199254740992 \<le> fl x" and "fl x \<le> x + x / 9007199254740992"
  using fl_err [of x] assms by linarith+

lemma fl_abs_step:
  assumes "\<bar>x - y\<bar> \<le> e" and "\<bar>y\<bar> \<le> b"
  shows "\<bar>fl x - y\<bar> \<le> e + (b + e) / 9007199254740992"
proof -
  have "\<bar>x\<bar> \<le> b + e" using assms by linarith
  then have "\<bar>x\<bar> / 9007199254740992 \<le> (b + e) / 9007199254740992" by simp
  moreover have "\<bar>fl x - x\<bar> \<le> \<bar>x\<bar> / 9007199254740992" by (rule fl_err)
  ultimately have "\<bar>fl x - x\<bar> \<le> (b + e) / 9007199254740992" by linarith
  with assms(1) show ?thesis by linarith
qed

lemma var_err:
  assumes "0 \<le> A" and "0 \<le> T"
  shows "\<bar>fl (fl A * T) - A * T\<bar> \<le> 3 * (A * T) / 9007199254740992"
    and "0 \<le> fl (fl A * T)"
proof -
  have a: "\<bar>fl A - A\<bar> \<le> A / 9007199254740992" using fl_err [of A] assms(1) by simp
  have "\<bar>fl A * T - A * T\<bar> = \<bar>fl A - A\<bar> * T"
    using assms(2) by (simp add: abs_mult left_diff_distrib [symmetric])
  also have "\<dots> \<le> A / 9007199254740992 * T" using a assms(2) by (rule mult_right_mono)
  finally have b: "\<bar>fl A * T - A * T\<bar> \<le> (A * T) / 9007199254740992" by simp
  have c: "\<bar>fl (fl A * T) - fl A * T\<bar> \<le> \<bar>fl A * T\<bar> / 9007199254740992" by (rule fl_err)
  have "0 \<le> A * T" using assms by simp
  with b c show "\<bar>fl (fl A * T) - A * T\<bar> \<le> 3 * (A * T) / 9007199254740992" by linarith
  show "0 \<le> fl (fl A * T)" using assms by (intro fl_nonneg mult_nonneg_nonneg)
qed

lemma alpha_err:
  assumes n: "0 \<le> n" and d: "0 < d"
  shows "\<bar>fl (fl n / fl d) - n / d\<bar> \<le> 5 * (n / d) / 9007199254740992"
    and "0 \<le> fl (fl n / fl d)"
proof -
  define a where "a = n / d"
  have a0: "0 \<le> a" using n d by (simp add: a_def)
  have ad: "a * d = n" using d by (simp add: a_def)
  have D0: "0 < fl d" using d by (rule fl_pos_pos)
  have N0: "0 \<le> fl n" using n by (rule fl_nonneg)
  note Nb = fl_err_nonneg [OF n]
  have d0: "0 \<le> d" using d by simp
  note Db = fl_err_nonneg [OF d0]
  have up: "fl n / fl d \<le> a + 3 * a / 9007199254740992"
  proof -
    have "(a + 3 * a / 9007199254740992) * (d - d / 9007199254740992)
            \<le> (a + 3 * a / 9007199254740992) * fl d"
      using Db(1) a0 by (intro mult_left_mono) simp_all
    moreover have "(a + 3 * a / 9007199254740992) * (d - d / 9007199254740992)
            = n * ((1 + 3 / 9007199254740992) * (1 - 1 / 9007199254740992))"
      unfolding ad [symmetric] by (simp add: algebra_simps)
    moreover have "n * (1 + 1 / 9007199254740992)
             \<le> n * ((1 + 3 / 9007199254740992) * (1 - 1 / 9007199254740992))"
      using n by (intro mult_left_mono) simp_all
    ultimately have "fl n \<le> (a + 3 * a / 9007199254740992) * fl d"
      using Nb(2) by (simp add: algebra_simps)
    then show ?thesis using D0 by (simp add: pos_divide_le_eq)
  qed
  have lo: "a - 2 * a / 9007199254740992 \<le> fl n / fl d"
  proof -
    have "(a - 2 * a / 9007199254740992) * fl d
            \<le> (a - 2 * a / 9007199254740992) * (d + d / 9007199254740992)"
      using Db(2) a0 by (intro mult_left_mono) simp_all
    moreover have "(a - 2 * a / 9007199254740992) * (d + d / 9007199254740992)
            = n * ((1 - 2 / 9007199254740992) * (1 + 1 / 9007199254740992))"
      unfolding ad [symmetric] by (simp add: algebra_simps)
    moreover have "n * ((1 - 2 / 9007199254740992) * (1 + 1 / 9007199254740992))
             \<le> n * (1 - 1 / 9007199254740992)"
      using n by (intro mult_left_mono) simp_all
    ultimately have "(a - 2 * a / 9007199254740992) * fl d \<le> fl n"
      using Nb(1) by (simp add: algebra_simps)
    then show ?thesis using D0 by (simp add: pos_le_divide_eq)
  qed
  define x where "x = fl n / fl d"
  have q0: "0 \<le> x" using N0 D0 by (simp add: x_def)
  have "\<bar>fl x - x\<bar> \<le> \<bar>x\<bar> / 9007199254740992" by (rule fl_err)
  with up lo q0 a0 have "\<bar>fl x - a\<bar> \<le> 5 * a / 9007199254740992"
    unfolding x_def [symmetric] by linarith
  then show "\<bar>fl (fl n / fl d) - n / d\<bar> \<le> 5 * (n / d) / 9007199254740992"
    by (simp add: x_def a_def)
  show "0 \<le> fl (fl n / fl d)" using q0 unfolding x_def by (rule fl_nonneg)
qed


text \<open>The weights of the two variances: \<open>T1 (1 - \<alpha>) + T2 \<alpha> = Tt\<close>.\<close>

lemma weights:
  fixes T1 T2 Tt :: real
  assumes T: "0 \<le> T1" "T1 \<le> Tt" "Tt \<le> T2" and d: "0 < T2 - T1"
  defines "al \<equiv> (Tt - T1) / (T2 - T1)"
  shows "0 \<le> al" and "al \<le> 1" and "T1 * (1 - al) + T2 * al = Tt"
    and "0 \<le> T1 * (1 - al)" and "0 \<le> T2 * al"
proof -
  show al0: "0 \<le> al" using T d by (simp add: al_def)
  show al1: "al \<le> 1" using T d by (simp add: al_def)
  have key: "(T2 - T1) * al = Tt - T1" using d by (simp add: al_def)
  have "T1 * (1 - al) + T2 * al = T1 + (T2 - T1) * al" by (simp add: algebra_simps)
  then show "T1 * (1 - al) + T2 * al = Tt" using key by simp
  show "0 \<le> T1 * (1 - al)" using T al1 by simp
  have "0 \<le> T2" using T by simp
  then show "0 \<le> T2 * al" using al0 by simp
qed

lemma exact_variance_bounds:
  fixes T1 T2 Tt :: real
  assumes A1: "m2 \<le> A1" "A1 \<le> M2" and A2: "m2 \<le> A2" "A2 \<le> M2"
    and T: "0 \<le> T1" "T1 \<le> Tt" "Tt \<le> T2" and d: "0 < T2 - T1"
  defines "al \<equiv> (Tt - T1) / (T2 - T1)"
  shows "m2 * Tt \<le> A1 * T1 + (A2 * T2 - A1 * T1) * al"
    and "A1 * T1 + (A2 * T2 - A1 * T1) * al \<le> M2 * Tt"
proof -
  define a where "a = T1 * (1 - al)"
  define b where "b = T2 * al"
  have ab: "a + b = Tt" and a0: "0 \<le> a" and b0: "0 \<le> b"
    using weights [OF T d] unfolding al_def a_def b_def by simp_all
  have e: "A1 * T1 + (A2 * T2 - A1 * T1) * al = A1 * a + A2 * b"
    by (simp add: a_def b_def algebra_simps)
  have "m2 * Tt = m2 * a + m2 * b" unfolding ab [symmetric] by (simp add: algebra_simps)
  also have "\<dots> \<le> A1 * a + A2 * b" using A1 A2 a0 b0 by (intro add_mono mult_right_mono)
  finally show "m2 * Tt \<le> A1 * T1 + (A2 * T2 - A1 * T1) * al" unfolding e .
  have "A1 * a + A2 * b \<le> M2 * a + M2 * b" using A1 A2 a0 b0 by (intro add_mono mult_right_mono)
  also have "\<dots> = M2 * Tt" unfolding ab [symmetric] by (simp add: algebra_simps)
  finally show "A1 * T1 + (A2 * T2 - A1 * T1) * al \<le> M2 * Tt" unfolding e .
qed

text \<open>
  The rounding error of the quotient \<open>varT / Tt\<close> of lines 79 to 82, against its exact value.
\<close>

lemma variance_err:
  assumes A1: "0 \<le> A1" "A1 \<le> M2" and A2: "0 \<le> A2" "A2 \<le> M2"
    and T: "0 \<le> T1" "T1 \<le> Tt" "Tt \<le> T2" and Tt: "0 < Tt" and d: "0 < T2 - T1"
  shows "\<bar>fl (fl (fl (fl A1 * T1)
                     + fl (fl (fl (fl A2 * T2) - fl (fl A1 * T1))
                           * fl (fl (Tt - T1) / fl (T2 - T1)))) / Tt)
           - (A1 * T1 + (A2 * T2 - A1 * T1) * ((Tt - T1) / (T2 - T1))) / Tt\<bar>
         \<le> 41 * M2 / 9007199254740992"
proof -
  define al where "al = (Tt - T1) / (T2 - T1)"
  define V1 where "V1 = A1 * T1"
  define V2 where "V2 = A2 * T2"
  define v1 where "v1 = fl (fl A1 * T1)"
  define v2 where "v2 = fl (fl A2 * T2)"
  define alpha where "alpha = fl (fl (Tt - T1) / fl (T2 - T1))"
  define s where "s = fl (v2 - v1)"
  define P where "P = s * alpha"
  define P' where "P' = (V2 - V1) * al"
  define VS where "VS = V1 + V2"
  define W where "W = VS * al"
  define S where "S = v1 + fl P"
  define Q where "Q = V1 + P'"
  define B where "B = M2 * Tt"
  have M0: "0 \<le> M2" using A1 by simp
  have T2: "0 \<le> T2" using T Tt by simp
  have V: "0 \<le> V1" "0 \<le> V2" using A1 A2 T T2 by (simp_all add: V1_def V2_def)
  have VS: "VS = V1 + V2" by (simp add: VS_def)
  have VS0: "0 \<le> VS" using V by (simp add: VS_def)
  have e1: "\<bar>v1 - V1\<bar> \<le> 3 * V1 / 9007199254740992"
    unfolding v1_def V1_def using A1(1) T(1) by (rule var_err)
  have e2: "\<bar>v2 - V2\<bar> \<le> 3 * V2 / 9007199254740992"
    unfolding v2_def V2_def using A2(1) T2 by (rule var_err)
  have n: "0 \<le> Tt - T1" using T by simp
  have ea: "\<bar>alpha - al\<bar> \<le> 5 * al / 9007199254740992" and alpha0: "0 \<le> alpha"
    unfolding alpha_def al_def using n d by (rule alpha_err)+
  have al: "0 \<le> al" "al \<le> 1" and w: "T1 * (1 - al) + T2 * al = Tt"
    using weights [OF T d] unfolding al_def by simp_all
  have d1: "\<bar>(v2 - v1) - (V2 - V1)\<bar> \<le> 3 * VS / 9007199254740992"
    using e1 e2 VS by linarith
  have d2: "\<bar>V2 - V1\<bar> \<le> VS" using V VS by linarith
  have "\<bar>s - (V2 - V1)\<bar> \<le> 3 * VS / 9007199254740992
          + (VS + 3 * VS / 9007199254740992) / 9007199254740992"
    unfolding s_def using d1 d2 by (rule fl_abs_step)
  also have "\<dots> \<le> 5 * VS / 9007199254740992" using VS0 by (simp add: field_simps)
  finally have es: "\<bar>s - (V2 - V1)\<bar> \<le> 5 * VS / 9007199254740992" .
  have alpha2: "alpha \<le> 2 * al" using ea al by linarith
  have W0: "0 \<le> W" using VS0 al by (simp add: W_def)
  have t1: "\<bar>(s - (V2 - V1)) * alpha\<bar> \<le> 10 * W / 9007199254740992"
  proof -
    have "\<bar>(s - (V2 - V1)) * alpha\<bar> = \<bar>s - (V2 - V1)\<bar> * alpha"
      using alpha0 by (simp add: abs_mult)
    also have "\<dots> \<le> (5 * VS / 9007199254740992) * (2 * al)"
      using es alpha2 alpha0 VS0 by (intro mult_mono) simp_all
    also have "\<dots> = 10 * W / 9007199254740992" by (simp add: W_def)
    finally show ?thesis .
  qed
  have t2: "\<bar>(V2 - V1) * (alpha - al)\<bar> \<le> 5 * W / 9007199254740992"
  proof -
    have "\<bar>(V2 - V1) * (alpha - al)\<bar> = \<bar>V2 - V1\<bar> * \<bar>alpha - al\<bar>" by (simp add: abs_mult)
    also have "\<dots> \<le> VS * (5 * al / 9007199254740992)"
      using ea d2 VS0 by (intro mult_mono) simp_all
    also have "\<dots> = 5 * W / 9007199254740992" by (simp add: W_def)
    finally show ?thesis .
  qed
  have "P - P' = (s - (V2 - V1)) * alpha + (V2 - V1) * (alpha - al)"
    by (simp add: P_def P'_def algebra_simps)
  with t1 t2 have eP: "\<bar>P - P'\<bar> \<le> 15 * W / 9007199254740992" by linarith
  have P'W: "\<bar>P'\<bar> \<le> W"
  proof -
    have "\<bar>P'\<bar> = \<bar>V2 - V1\<bar> * al" using al by (simp add: P'_def abs_mult)
    also have "\<dots> \<le> VS * al" using d2 al by (intro mult_right_mono) simp_all
    finally show ?thesis by (simp add: W_def)
  qed
  have "\<bar>fl P - P'\<bar> \<le> 15 * W / 9007199254740992
          + (W + 15 * W / 9007199254740992) / 9007199254740992"
    using eP P'W by (rule fl_abs_step)
  also have "\<dots> \<le> 17 * W / 9007199254740992" using W0 by (simp add: field_simps)
  finally have ep: "\<bar>fl P - P'\<bar> \<le> 17 * W / 9007199254740992" .
  have B0: "0 \<le> B" using M0 Tt by (simp add: B_def)
  have V1B: "V1 \<le> B" unfolding V1_def B_def using A1 T by (intro mult_mono) simp_all
  have W1: "V1 * al \<le> B"
  proof -
    have "V1 * al \<le> V1 * 1" using V al by (intro mult_left_mono) simp_all
    with V1B show ?thesis by simp
  qed
  have W2: "V2 * al \<le> B"
  proof -
    have "0 \<le> T1 * (1 - al)" using T al by simp
    with w have "T2 * al \<le> Tt" by linarith
    moreover have "0 \<le> T2 * al" using T2 al by simp
    ultimately have "A2 * (T2 * al) \<le> M2 * Tt" using A2 M0 by (intro mult_mono) simp_all
    then show ?thesis by (simp add: V2_def B_def mult.assoc)
  qed
  have WB: "W \<le> 2 * B" using W1 W2 by (simp add: W_def VS_def distrib_right)
  have Qb: "0 \<le> Q" "Q \<le> B"
    using exact_variance_bounds [OF A1 A2 T d] Tt unfolding Q_def P'_def V1_def V2_def al_def B_def
    by simp_all
  have "\<bar>S - Q\<bar> \<le> 3 * V1 / 9007199254740992 + 17 * W / 9007199254740992"
    using e1 ep unfolding S_def Q_def by linarith
  then have eS: "\<bar>S - Q\<bar> \<le> 37 * B / 9007199254740992"
    using V1B WB by linarith
  have Qa: "\<bar>Q\<bar> \<le> B" using Qb by simp
  have "\<bar>fl S - Q\<bar> \<le> 37 * B / 9007199254740992
          + (B + 37 * B / 9007199254740992) / 9007199254740992"
    using eS Qa by (rule fl_abs_step)
  also have "\<dots> \<le> 39 * B / 9007199254740992" using B0 by (simp add: field_simps)
  finally have ev: "\<bar>fl S - Q\<bar> \<le> 39 * B / 9007199254740992" .
  define x where "x = fl S / Tt"
  have ex: "\<bar>x - Q / Tt\<bar> \<le> 39 * M2 / 9007199254740992"
  proof -
    have "\<bar>x - Q / Tt\<bar> = \<bar>fl S - Q\<bar> / Tt"
      using Tt by (simp add: x_def diff_divide_distrib [symmetric])
    also have "\<dots> \<le> (39 * B / 9007199254740992) / Tt"
      using ev Tt by (intro divide_right_mono) simp_all
    also have "\<dots> = 39 * M2 / 9007199254740992" using Tt by (simp add: B_def)
    finally show ?thesis .
  qed
  have Qt: "\<bar>Q / Tt\<bar> \<le> M2"
    using Qb Tt by (simp add: B_def pos_divide_le_eq)
  have "\<bar>fl x - Q / Tt\<bar> \<le> 39 * M2 / 9007199254740992
          + (M2 + 39 * M2 / 9007199254740992) / 9007199254740992"
    using ex Qt by (rule fl_abs_step)
  also have "\<dots> \<le> 41 * M2 / 9007199254740992" using M0 by (simp add: field_simps)
  finally show ?thesis
    unfolding x_def S_def P_def s_def v1_def v2_def alpha_def Q_def P'_def V1_def V2_def al_def .
qed


text \<open>The last two steps: the floor and the square root.\<close>

lemma sqrt_stage_upper:
  assumes v: "1 / 10 ^ 5 \<le> v" and mv: "m \<le> v" and vM: "v \<le> M" and m: "0 < m"
    and q: "q \<le> v * v + 41 * (M * M) / 9007199254740992"
  shows "fl (sqrt (max (fl (1 / 10 ^ 10)) q)) \<le> v + 64 * (M * M / m) / 9007199254740992"
proof -
  define K where "K = M * M / m"
  define e where "e = 41 * (M * M) / 9007199254740992"
  define c where "c = v / 9007199254740992 + e / v"
  define x where "x = max (fl (1 / 10 ^ 10)) q"
  have v0: "0 < v" using v by (rule less_le_trans [rotated]) simp
  have M0: "0 < M" using v0 vM by simp
  have e0: "0 \<le> e" by (simp add: e_def)
  have K0: "0 \<le> K" using M0 m by (simp add: K_def)
  have vK: "v \<le> K"
  proof -
    have "v * m \<le> M * M" using vM mv m v0 M0 by (intro mult_mono) simp_all
    then show ?thesis using m by (simp add: K_def pos_le_divide_eq)
  qed
  have ev: "e / v \<le> 41 * K / 9007199254740992"
  proof -
    have "M * M / v \<le> M * M / m" using mv m M0 by (intro divide_left_mono) simp_all
    then show ?thesis using v0 by (simp add: e_def K_def)
  qed
  have sq: "1 / 10 ^ 10 \<le> v * v"
  proof -
    have "(1 / 10 ^ 5) * (1 / 10 ^ 5) \<le> v * v" using v by (intro mult_mono) simp_all
    then show ?thesis by simp
  qed
  define F where "F = fl (1 / 10 ^ 10)"
  define vv where "vv = v * v"
  have "F \<le> 1 / 10 ^ 10 + (1 / 10 ^ 10) / 9007199254740992"
    unfolding F_def by (rule fl_err_nonneg) simp
  also have "\<dots> \<le> vv + vv / 9007199254740992"
    using sq unfolding vv_def by (intro add_mono divide_right_mono) simp_all
  finally have f: "F \<le> vv + vv / 9007199254740992" .
  have vv0: "0 \<le> vv" by (simp add: vv_def)
  have q': "q \<le> vv + e" using q by (simp add: vv_def e_def)
  have "F \<le> vv + vv / 9007199254740992 + e" using f e0 by linarith
  moreover have "q \<le> vv + vv / 9007199254740992 + e" using q' vv0 by linarith
  ultimately have x1: "x \<le> vv + vv / 9007199254740992 + e"
    unfolding x_def F_def by (rule max.boundedI)
  have c0: "0 \<le> c" using v0 e0 by (simp add: c_def)
  have vc: "v * c = vv / 9007199254740992 + e" using v0 by (simp add: c_def vv_def distrib_left)
  have "(v + c)\<^sup>2 = vv + 2 * (v * c) + c * c"
    by (simp add: vv_def power2_eq_square algebra_simps)
  moreover have "0 \<le> c * c" by simp
  ultimately have "vv + vv / 9007199254740992 + e \<le> (v + c)\<^sup>2"
    using vc vv0 e0 by linarith
  with x1 have "x \<le> (v + c)\<^sup>2" by linarith
  then have sx: "sqrt x \<le> v + c" using v0 c0 by (intro real_le_lsqrt) simp_all
  have s0: "0 \<le> sqrt x"
  proof -
    have "0 \<le> fl (1 / 10 ^ 10)" by (rule fl_nonneg) simp
    then have "0 \<le> x" by (simp add: x_def max_def)
    then show ?thesis by simp
  qed
  have r: "fl (sqrt x) \<le> sqrt x + sqrt x / 9007199254740992" using s0 by (rule fl_err_nonneg)
  have "v / 9007199254740992 \<le> K / 9007199254740992" using vK by simp
  then have c1: "c \<le> K / 9007199254740992 + 41 * K / 9007199254740992"
    using ev unfolding c_def by linarith
  define y where "y = K / 9007199254740992 + 41 * K / 9007199254740992"
  have y: "c \<le> y" using c1 by (simp add: y_def)
  have "sqrt x / 9007199254740992 \<le> (v + c) / 9007199254740992" using sx by simp
  also have "\<dots> \<le> (K + y) / 9007199254740992" using vK y by simp
  finally have "fl (sqrt x) \<le> v + (y + (K + y) / 9007199254740992)" using r sx y by linarith
  moreover have "y + (K + y) / 9007199254740992 \<le> 64 * K / 9007199254740992"
    using K0 unfolding y_def by (simp add: field_simps)
  ultimately have "fl (sqrt x) \<le> v + 64 * K / 9007199254740992" by linarith
  then show ?thesis unfolding x_def K_def .
qed

lemma sqrt_stage_lower:
  assumes mv: "m \<le> v" and vM: "v \<le> M" and m: "0 < m"
    and q: "v * v - 41 * (M * M) / 9007199254740992 \<le> q"
  shows "v - 64 * (M * M / m) / 9007199254740992 \<le> fl (sqrt (max (fl (1 / 10 ^ 10)) q))"
proof -
  define K where "K = M * M / m"
  define e where "e = 41 * (M * M) / 9007199254740992"
  define c where "c = v - e / v"
  define x where "x = max (fl (1 / 10 ^ 10)) q"
  have v0: "0 < v" using mv m by simp
  have M0: "0 < M" using v0 vM by simp
  have e0: "0 \<le> e" by (simp add: e_def)
  have K0: "0 \<le> K" using M0 m by (simp add: K_def)
  have vK: "v \<le> K"
  proof -
    have "v * m \<le> M * M" using vM mv m v0 M0 by (intro mult_mono) simp_all
    then show ?thesis using m by (simp add: K_def pos_le_divide_eq)
  qed
  have ev: "e / v \<le> 41 * K / 9007199254740992"
  proof -
    have "M * M / v \<le> M * M / m" using mv m M0 by (intro divide_left_mono) simp_all
    then show ?thesis using v0 by (simp add: e_def K_def)
  qed
  have ev0: "0 \<le> e / v" using e0 v0 by simp
  have x0: "0 \<le> x"
  proof -
    have "0 \<le> fl (1 / 10 ^ 10)" by (rule fl_nonneg) simp
    then show ?thesis by (simp add: x_def max_def)
  qed
  have s0: "0 \<le> sqrt x" using x0 by simp
  have r0: "0 \<le> fl (sqrt x)" using s0 by (rule fl_nonneg)
  have r: "sqrt x - sqrt x / 9007199254740992 \<le> fl (sqrt x)" using s0 by (rule fl_err_nonneg)
  have "v - 64 * K / 9007199254740992 \<le> fl (sqrt x)"
  proof (cases "c \<le> 0")
    case True
    have "41 * K / 9007199254740992 \<le> 64 * K / 9007199254740992" using K0 by simp
    with True ev r0 show ?thesis unfolding c_def by linarith
  next
    case False
    then have c0: "0 < c" by simp
    then have lt: "e / v \<le> v" by (simp add: c_def)
    have "(e / v) * (e / v) \<le> (e / v) * v" using lt ev0 by (intro mult_left_mono)
    then have ee: "(e / v) * (e / v) \<le> e" using v0 by simp
    have "c\<^sup>2 = v * v - 2 * (v * (e / v)) + (e / v) * (e / v)"
      by (simp add: c_def power2_eq_square algebra_simps)
    also have "\<dots> = v * v - 2 * e + (e / v) * (e / v)" using v0 by simp
    also have "\<dots> \<le> v * v - e" using ee by simp
    also have "\<dots> \<le> x" using q by (simp add: x_def e_def)
    finally have "c \<le> sqrt x" by (rule real_le_rsqrt)
    moreover have "c \<le> v" using ev0 by (simp add: c_def)
    moreover have "v - 41 * K / 9007199254740992 \<le> c" using ev by (simp add: c_def)
    moreover have "sqrt x / 9007199254740992 \<le> sqrt x" using s0 by simp
    moreover have "42 * K / 9007199254740992 \<le> 64 * K / 9007199254740992" using K0 by simp
    moreover have "v / 9007199254740992 \<le> K / 9007199254740992" using vK by simp
    moreover have "c - c / 9007199254740992 \<le> sqrt x - sqrt x / 9007199254740992"
      using calculation(1) by (simp add: field_simps)
    moreover have "c / 9007199254740992 \<le> v / 9007199254740992" using calculation(2) by simp
    ultimately show ?thesis using r by linarith
  qed
  then show ?thesis unfolding x_def K_def .
qed

lemma interpolate_binary64_weighted:
  assumes "fl (1 / 10 ^ 9) < \<bar>fl (T2 - T1)\<bar>"
  shows "interpolate_iv30_binary64 iv1 iv2 T1 T2 =
           fl (sqrt (max (fl (1 / 10 ^ 10))
             (fl (fl (fl (fl (iv1 * iv1) * T1)
                      + fl (fl (fl (fl (iv2 * iv2) * T2) - fl (fl (iv1 * iv1) * T1))
                            * fl (fl (fl (30 / (36525 / 100)) - T1) / fl (T2 - T1))))
                  / fl (30 / (36525 / 100))))))"
  using assms by (simp add: interpolate_iv30_binary64_def Let_def)

lemma fl_sqrt_lower:
  assumes "y\<^sup>2 \<le> q"
  shows "fl y \<le> fl (sqrt (max f q))"
proof -
  have "y\<^sup>2 \<le> max f q" using assms by simp
  then have "y \<le> sqrt (max f q)" by (rule real_le_rsqrt)
  then show ?thesis by (rule fl_mono)
qed

lemma fl_sqrt_floor:
  assumes "y\<^sup>2 \<le> f"
  shows "fl y \<le> fl (sqrt (max f q))"
proof -
  have "y\<^sup>2 \<le> max f q" using assms by simp
  then have "y \<le> sqrt (max f q)" by (rule real_le_rsqrt)
  then show ?thesis by (rule fl_mono)
qed

lemma example_year_fractions:
  "fl (1 / 10 ^ 9) < \<bar>fl (fl (3456000 / 31557600) - fl (1728000 / 31557600))\<bar>"
  "fl (1 / 10 ^ 9) < \<bar>fl (fl (3456000 / 31557600) - fl (30 / (36525 / 100)))\<bar>"
  "fl (1 / 10 ^ 9) < \<bar>fl (fl (30 / (36525 / 100)) - fl (1728000 / 31557600))\<bar>"
  by (simp_all add: fl_eval)

lemma example_variances:
  "fl (fl (fl (fl (fl (1 / 5) * fl (1 / 5)) * fl (1728000 / 31557600))
            + fl (fl (fl (fl (fl (1 / 5) * fl (1 / 5)) * fl (3456000 / 31557600)) - fl (fl (fl (1 / 5) * fl (1 / 5)) * fl (1728000 / 31557600)))
                  * fl (fl (fl (30 / (36525 / 100)) - fl (1728000 / 31557600)) / fl (fl (3456000 / 31557600) - fl (1728000 / 31557600)))))
        / fl (30 / (36525 / 100)))
     = 5764607523034237 / 144115188075855872"
  "fl (fl (fl (fl (fl (24 / 100) * fl (24 / 100)) * fl (30 / (36525 / 100)))
            + fl (fl (fl (fl (fl (3 / 10) * fl (3 / 10)) * fl (3456000 / 31557600)) - fl (fl (fl (24 / 100) * fl (24 / 100)) * fl (30 / (36525 / 100))))
                  * fl (fl (fl (30 / (36525 / 100)) - fl (30 / (36525 / 100))) / fl (fl (3456000 / 31557600) - fl (30 / (36525 / 100))))))
        / fl (30 / (36525 / 100)))
     = 8301034833169299 / 144115188075855872"
  by (simp_all add: fl_eval)

section \<open>Properties of the interpolation\<close>

lemma sqrt_floor_value: "sqrt (1 / 10 ^ 10) = 1 / 10 ^ 5"
proof -
  have "sqrt ((1 / 10 ^ 5) ^ 2) = (1 / 10 ^ 5 :: real)"
    by (rule real_sqrt_unique) simp_all
  then show ?thesis by (simp add: power_divide)
qed

lemma interpolate_floor: "sqrt (1 / 10 ^ 10) \<le> interpolate_iv30 iv1 iv2 T1 T2"
  unfolding interpolate_iv30_def Let_def by (rule real_sqrt_le_mono) simp

lemma interpolate_positive: "0 < interpolate_iv30 iv1 iv2 T1 T2"
proof -
  have "(0 :: real) < sqrt (1 / 10 ^ 10)" by simp
  then show ?thesis using interpolate_floor [of iv1 iv2 T1 T2] by (rule less_le_trans)
qed

text \<open>
  Claim C4, as amended. For all \<open>iv1 \<ge> 1e-5\<close>, \<open>iv2 \<ge> 1e-5\<close> and year fractions
  \<open>0 < T1 \<le> Tt \<le> T2\<close>, where \<open>Tt\<close> is the float \<^verbatim>\<open>30.0/365.25\<close> and the float \<open>T2 - T1\<close>
  exceeds \<^verbatim>\<open>1e-9\<close>, the float that lines 78 to 82 compute lies between \<open>iv1\<close> and \<open>iv2\<close> up to
  the rounding tolerance \<open>max(iv1, iv2)\<^sup>2 / min(iv1, iv2) * 2\<^sup>-\<^sup>4\<^sup>7\<close>; it is within this tolerance
  of \<open>iv1\<close> when \<open>T1 = Tt\<close> and of \<open>iv2\<close> when \<open>T2 = Tt\<close>.
\<close>

theorem interpolate_binary64_between:
  assumes iv1: "1 / 10 ^ 5 \<le> iv1" and iv2: "1 / 10 ^ 5 \<le> iv2"
    and T1: "0 < T1" "T1 \<le> fl (30 / (36525 / 100))"
    and T2: "fl (30 / (36525 / 100)) \<le> T2"
    and gap: "fl (1 / 10 ^ 9) < \<bar>fl (T2 - T1)\<bar>"
  shows "min iv1 iv2 - (max iv1 iv2)\<^sup>2 / min iv1 iv2 / 2 ^ 47
           \<le> interpolate_iv30_binary64 iv1 iv2 T1 T2
       \<and> interpolate_iv30_binary64 iv1 iv2 T1 T2
           \<le> max iv1 iv2 + (max iv1 iv2)\<^sup>2 / min iv1 iv2 / 2 ^ 47
       \<and> (T1 = fl (30 / (36525 / 100)) \<longrightarrow>
            \<bar>interpolate_iv30_binary64 iv1 iv2 T1 T2 - iv1\<bar>
              \<le> (max iv1 iv2)\<^sup>2 / min iv1 iv2 / 2 ^ 47)
       \<and> (T2 = fl (30 / (36525 / 100)) \<longrightarrow>
            \<bar>interpolate_iv30_binary64 iv1 iv2 T1 T2 - iv2\<bar>
              \<le> (max iv1 iv2)\<^sup>2 / min iv1 iv2 / 2 ^ 47)"
proof -
  define Tt where "Tt = fl (30 / (36525 / 100))"
  define m where "m = min iv1 iv2"
  define M where "M = max iv1 iv2"
  define al where "al = (Tt - T1) / (T2 - T1)"
  define q where "q = fl (fl (fl (fl (iv1 * iv1) * T1)
                     + fl (fl (fl (fl (iv2 * iv2) * T2) - fl (fl (iv1 * iv1) * T1))
                           * fl (fl (Tt - T1) / fl (T2 - T1)))) / Tt)"
  define q' where "q' = (iv1 * iv1 * T1 + (iv2 * iv2 * T2 - iv1 * iv1 * T1) * al) / Tt"
  define r where "r = interpolate_iv30_binary64 iv1 iv2 T1 T2"
  define tol where "tol = 64 * (M * M / m) / 9007199254740992"
  have Tt: "0 < Tt" unfolding Tt_def by (rule fl_pos_pos) simp
  have T: "0 \<le> T1" "T1 \<le> Tt" "Tt \<le> T2" using T1 T2 by (simp_all add: Tt_def)
  have d: "0 < T2 - T1"
  proof -
    have "0 \<le> fl (1 / 10 ^ 9)" by (rule fl_nonneg) simp
    with gap have "fl (T2 - T1) \<noteq> 0" by auto
    then have "T2 - T1 \<noteq> 0" by auto
    with T show ?thesis by simp
  qed
  have m0: "1 / 10 ^ 5 \<le> m" using iv1 iv2 by (simp add: m_def)
  have mpos: "0 < m" using m0 by (rule less_le_trans [rotated]) simp
  have b1: "m \<le> iv1" "iv1 \<le> M" and b2: "m \<le> iv2" "iv2 \<le> M" and mM: "m \<le> M"
    by (simp_all add: m_def M_def)
  have p1: "0 < iv1" and p2: "0 < iv2" using mpos b1 b2 by simp_all
  have A1: "0 \<le> iv1 * iv1" "iv1 * iv1 \<le> M * M" "m * m \<le> iv1 * iv1"
    using b1 mpos p1 by (simp_all add: mult_mono)
  have A2: "0 \<le> iv2 * iv2" "iv2 * iv2 \<le> M * M" "m * m \<le> iv2 * iv2"
    using b2 mpos p2 by (simp_all add: mult_mono)
  have r: "r = fl (sqrt (max (fl (1 / 10 ^ 10)) q))"
    using gap by (simp add: r_def interpolate_iv30_binary64_def Let_def q_def Tt_def)
  have err: "\<bar>q - q'\<bar> \<le> 41 * (M * M) / 9007199254740992"
    unfolding q_def q'_def al_def
    using A1(1,2) A2(1,2) T Tt d by (rule variance_err)
  have ex: "m * m * Tt \<le> q' * Tt" "q' * Tt \<le> M * M * Tt"
    using exact_variance_bounds [OF A1(3,2) A2(3,2) T d] Tt
    unfolding q'_def al_def by simp_all
  have lo: "m * m \<le> q'" and hi: "q' \<le> M * M" using ex Tt by simp_all
  have up: "q \<le> v * v + 41 * (M * M) / 9007199254740992" if "q' \<le> v * v" for v
    using err that by linarith
  have dn: "v * v - 41 * (M * M) / 9007199254740992 \<le> q" if "v * v \<le> q'" for v
    using err that by linarith
  have U: "r \<le> v + tol" if "m \<le> v" "v \<le> M" "q' \<le> v * v" for v
  proof -
    have "1 / 10 ^ 5 \<le> v" using m0 that(1) by simp
    from sqrt_stage_upper [OF this that(1,2) mpos up [OF that(3)]]
    show ?thesis by (simp add: r tol_def)
  qed
  have L: "v - tol \<le> r" if "m \<le> v" "v \<le> M" "v * v \<le> q'" for v
    using sqrt_stage_lower [OF that(1,2) mpos dn [OF that(3)]] by (simp add: r tol_def)
  have tol: "tol = (max iv1 iv2)\<^sup>2 / min iv1 iv2 / 2 ^ 47"
    by (simp add: tol_def M_def m_def power2_eq_square)
  have c1: "m - tol \<le> r" using L [of m] mM lo by simp
  have c2: "r \<le> M + tol" using U [of M] mM hi by simp
  have c3: "\<bar>r - iv1\<bar> \<le> tol" if "T1 = fl (30 / (36525 / 100))"
  proof -
    have "al = 0" using that by (simp add: al_def Tt_def)
    then have "q' = iv1 * iv1" using that Tt by (simp add: q'_def Tt_def)
    with U [of iv1] L [of iv1] b1 show ?thesis by (simp add: abs_le_iff)
  qed
  have c4: "\<bar>r - iv2\<bar> \<le> tol" if "T2 = fl (30 / (36525 / 100))"
  proof -
    have "al = 1" using that d by (simp add: al_def Tt_def)
    then have "q' = iv2 * iv2" using that Tt by (simp add: q'_def Tt_def)
    with U [of iv2] L [of iv2] b2 show ?thesis by (simp add: abs_le_iff)
  qed
  show ?thesis
    using c1 c2 c3 c4 unfolding tol r_def m_def M_def by blast
qed

text \<open>
  The theorem at \<open>iv1 = 0.2\<close>, \<open>iv2 = 0.3\<close>, with expiries at 20 and 40 days, at 30 and 40 days
  and at 20 and 30 days. The year fraction of an expiry \<open>n\<close> days ahead is the float
  \<^verbatim>\<open>(n*86400)/31557600.0\<close>; at 30 days it is the float \<^verbatim>\<open>30.0/365.25\<close>.
\<close>

theorem interpolate_binary64_between_witness:
  "1 / 10 ^ 5 \<le> fl (1 / 5) \<and> 1 / 10 ^ 5 \<le> fl (3 / 10)
   \<and> 0 < fl (1728000 / 31557600) \<and> fl (1728000 / 31557600) \<le> fl (30 / (36525 / 100)) \<and> fl (30 / (36525 / 100)) \<le> fl (3456000 / 31557600)
   \<and> fl (1 / 10 ^ 9) < \<bar>fl (fl (3456000 / 31557600) - fl (1728000 / 31557600))\<bar>
   \<and> min (fl (1 / 5)) (fl (3 / 10)) - (max (fl (1 / 5)) (fl (3 / 10)))\<^sup>2 / min (fl (1 / 5)) (fl (3 / 10)) / 2 ^ 47
       \<le> interpolate_iv30_binary64 (fl (1 / 5)) (fl (3 / 10)) (fl (1728000 / 31557600)) (fl (3456000 / 31557600))
   \<and> interpolate_iv30_binary64 (fl (1 / 5)) (fl (3 / 10)) (fl (1728000 / 31557600)) (fl (3456000 / 31557600))
       \<le> max (fl (1 / 5)) (fl (3 / 10)) + (max (fl (1 / 5)) (fl (3 / 10)))\<^sup>2 / min (fl (1 / 5)) (fl (3 / 10)) / 2 ^ 47
   \<and> \<bar>interpolate_iv30_binary64 (fl (1 / 5)) (fl (3 / 10)) (fl (30 / (36525 / 100))) (fl (3456000 / 31557600)) - fl (1 / 5)\<bar>
       \<le> (max (fl (1 / 5)) (fl (3 / 10)))\<^sup>2 / min (fl (1 / 5)) (fl (3 / 10)) / 2 ^ 47
   \<and> \<bar>interpolate_iv30_binary64 (fl (1 / 5)) (fl (3 / 10)) (fl (1728000 / 31557600)) (fl (30 / (36525 / 100))) - fl (3 / 10)\<bar>
       \<le> (max (fl (1 / 5)) (fl (3 / 10)))\<^sup>2 / min (fl (1 / 5)) (fl (3 / 10)) / 2 ^ 47"
proof -
  have h: "1 / 10 ^ 5 \<le> fl (1 / 5)" "1 / 10 ^ 5 \<le> fl (3 / 10)"
    "0 < fl (1728000 / 31557600)" "fl (1728000 / 31557600) \<le> fl (30 / (36525 / 100))" "fl (30 / (36525 / 100)) \<le> fl (3456000 / 31557600)"
    "0 < fl (30 / (36525 / 100))" "fl (30 / (36525 / 100)) \<le> fl (30 / (36525 / 100))"
    by (simp_all add: fl_eval)
  note g = example_year_fractions
  from interpolate_binary64_between [OF h(1,2,3,4,5) g(1)]
    interpolate_binary64_between [OF h(1,2,6,7,5) g(2)]
    interpolate_binary64_between [OF h(1,2,3,4,7) g(3)]
    h g(1)
  show ?thesis by simp
qed

text \<open>
  Claim C4 as stated fails. With \<open>iv1 = iv2 = 0.2\<close> at 20 and 40 days the float returned is
  \<open>0.20000000000000004\<close>, above both. With \<open>T1 = Tt\<close>, \<open>iv1 = 0.24\<close> and \<open>iv2 = 0.3\<close> at 40 days
  the weight is \<open>0\<close> and the float returned is \<open>0.24000000000000002\<close>, not \<open>iv1\<close>. And with
  \<open>iv1 = iv2 = 1e-6\<close> at 20 and 40 days the variance is below the floor \<^verbatim>\<open>1e-10\<close> and the
  result is \<open>1e-5\<close>, above both.
\<close>

theorem interpolate_binary64_counterexample:
  "0 < fl (1 / 5) \<and> fl (1728000 / 31557600) < fl (30 / (36525 / 100)) \<and> fl (30 / (36525 / 100)) < fl (3456000 / 31557600)
   \<and> max (fl (1 / 5)) (fl (1 / 5))
       < interpolate_iv30_binary64 (fl (1 / 5)) (fl (1 / 5)) (fl (1728000 / 31557600)) (fl (3456000 / 31557600))
   \<and> 0 < fl (24 / 100) \<and> 0 < fl (3 / 10)
   \<and> interpolate_iv30_binary64 (fl (24 / 100)) (fl (3 / 10)) (fl (30 / (36525 / 100))) (fl (3456000 / 31557600)) \<noteq> fl (24 / 100)
   \<and> 0 < fl (1 / 10 ^ 6)
   \<and> max (fl (1 / 10 ^ 6)) (fl (1 / 10 ^ 6))
       < interpolate_iv30_binary64 (fl (1 / 10 ^ 6)) (fl (1 / 10 ^ 6)) (fl (1728000 / 31557600)) (fl (3456000 / 31557600))"
proof -
  have h: "0 < fl (1 / 5)" "fl (1728000 / 31557600) < fl (30 / (36525 / 100))" "fl (30 / (36525 / 100)) < fl (3456000 / 31557600)" "0 < fl (24 / 100)" "0 < fl (3 / 10)" "0 < fl (1 / 10 ^ 6)"
    by (simp_all add: fl_eval)
  note g = example_year_fractions
  have a: "max (fl (1 / 5)) (fl (1 / 5)) < interpolate_iv30_binary64 (fl (1 / 5)) (fl (1 / 5)) (fl (1728000 / 31557600)) (fl (3456000 / 31557600))"
  proof -
    have "(57646075230342357 / 288230376151711744 :: real)\<^sup>2
            \<le> 5764607523034237 / 144115188075855872"
      by (simp add: power2_eq_square)
    then have "fl (57646075230342357 / 288230376151711744)
            \<le> interpolate_iv30_binary64 (fl (1 / 5)) (fl (1 / 5)) (fl (1728000 / 31557600)) (fl (3456000 / 31557600))"
      unfolding interpolate_binary64_weighted [OF g(1)] example_variances(1)
      by (rule fl_sqrt_lower)
    moreover have "fl (1 / 5) < fl (57646075230342357 / 288230376151711744)"
      by (simp add: fl_eval)
    ultimately show ?thesis by simp
  qed
  have b: "fl (24 / 100) < interpolate_iv30_binary64 (fl (24 / 100)) (fl (3 / 10)) (fl (30 / (36525 / 100))) (fl (3456000 / 31557600))"
  proof -
    have "(69175290276410821 / 288230376151711744 :: real)\<^sup>2
            \<le> 8301034833169299 / 144115188075855872"
      by (simp add: power2_eq_square)
    then have "fl (69175290276410821 / 288230376151711744)
            \<le> interpolate_iv30_binary64 (fl (24 / 100)) (fl (3 / 10)) (fl (30 / (36525 / 100))) (fl (3456000 / 31557600))"
      unfolding interpolate_binary64_weighted [OF g(2)] example_variances(2)
      by (rule fl_sqrt_lower)
    moreover have "fl (24 / 100) < fl (69175290276410821 / 288230376151711744)"
      by (simp add: fl_eval)
    ultimately show ?thesis by simp
  qed
  have c: "max (fl (1 / 10 ^ 6)) (fl (1 / 10 ^ 6)) < interpolate_iv30_binary64 (fl (1 / 10 ^ 6)) (fl (1 / 10 ^ 6)) (fl (1728000 / 31557600)) (fl (3456000 / 31557600))"
  proof -
    have "(9 / 10 ^ 6 :: real)\<^sup>2 \<le> fl (1 / 10 ^ 10)"
      by (simp add: power2_eq_square fl_eval)
    then have "fl (9 / 10 ^ 6)
            \<le> interpolate_iv30_binary64 (fl (1 / 10 ^ 6)) (fl (1 / 10 ^ 6)) (fl (1728000 / 31557600)) (fl (3456000 / 31557600))"
      unfolding interpolate_binary64_weighted [OF g(1)]
      by (rule fl_sqrt_floor)
    moreover have "fl (1 / 10 ^ 6) < fl (9 / 10 ^ 6)"
      by (simp add: fl_eval)
    ultimately show ?thesis by simp
  qed
  from h a b c show ?thesis by simp
qed

section \<open>Faults\<close>

lemma pick_expiries_no_future:
  assumes "\<forall>e\<in>set es. e \<le> t + 86400"
  shows "pick_expiries (VList (map VInt es)) t target = Inr (VNone, VNone)"
proof -
  have "filter (\<lambda>e. e > t + 86400) es = []" using assms by (auto simp add: filter_empty_conv)
  then show ?thesis by (simp add: pick_expiries_def expiry_days_ints)
qed

text \<open>
  Claim C5. \<^verbatim>\<open>iv30_from_yahoo\<close> is a total function into Python values: it returns, whatever the
  chain and whatever the collaborator does. Every exception of its body gives \<^verbatim>\<open>None\<close>; so does
  a quote without a spot price, a list of expiries none of which is more than one day after
  the reference time, and a fault raised by the collaborator for either expiry.
\<close>

theorem faults_give_none:
  "(iv30_body fetch chain when = Inl err \<longrightarrow> iv30_from_yahoo fetch chain when = VNone)
   \<and> (chain_result chain = Inr res \<and> subscript_key res ''quote'' = Inr quote
        \<and> dict_get quote ''regularMarketPrice'' VNone = Inr VNone
      \<longrightarrow> iv30_from_yahoo fetch chain when = VNone)
   \<and> (chain_result chain = Inr res
        \<and> dict_get res ''expirationDates'' (VList []) = Inr (VList (map VInt es))
        \<and> (\<forall>e\<in>set es. e \<le> py_int when + 86400)
      \<longrightarrow> iv30_from_yahoo fetch chain when = VNone)
   \<and> (chain_head chain when = Inr (Some (quote, spot, e1, e2))
        \<and> subscript_key quote ''symbol'' = Inr ticker
        \<and> (fetch ticker e1 = Inl err \<or> fetch ticker e2 = Inl err)
      \<longrightarrow> iv30_from_yahoo fetch chain when = VNone)"
proof (intro conjI impI)
  assume "iv30_body fetch chain when = Inl err"
  then show "iv30_from_yahoo fetch chain when = VNone" by (simp add: iv30_from_yahoo_def)
next
  assume "chain_result chain = Inr res \<and> subscript_key res ''quote'' = Inr quote
        \<and> dict_get quote ''regularMarketPrice'' VNone = Inr VNone"
  then have "chain_head chain when = Inr None" by (simp add: chain_head_def)
  then show "iv30_from_yahoo fetch chain when = VNone"
    by (simp add: iv30_from_yahoo_def iv30_body_def)
next
  assume a: "chain_result chain = Inr res
        \<and> dict_get res ''expirationDates'' (VList []) = Inr (VList (map VInt es))
        \<and> (\<forall>e\<in>set es. e \<le> py_int when + 86400)"
  then have p: "pick_expiries (VList (map VInt es)) (py_int when) 30 = Inr (VNone, VNone)"
    by (simp add: pick_expiries_no_future)
  have "chain_head chain when = Inr None \<or> (\<exists>x. chain_head chain when = Inl x)"
    using a p unfolding chain_head_def
    by (cases "subscript_key res ''quote''"; cases "dict_get (projr (subscript_key res ''quote'')) ''regularMarketPrice'' VNone")
       (auto simp add: Let_def)
  then show "iv30_from_yahoo fetch chain when = VNone"
    by (auto simp add: iv30_from_yahoo_def iv30_body_def)
next
  assume a: "chain_head chain when = Inr (Some (quote, spot, e1, e2))
        \<and> subscript_key quote ''symbol'' = Inr ticker
        \<and> (fetch ticker e1 = Inl err \<or> fetch ticker e2 = Inl err)"
  then have "fetch_bucket fetch quote e1 = Inl err \<or> fetch_bucket fetch quote e2 = Inl err"
    by (auto simp add: fetch_bucket_def)
  then have "\<exists>x. fetch_ivs fetch quote spot e1 e2 = Inl x"
    by (cases "fetch_bucket fetch quote e1") (auto simp add: fetch_ivs_def)
  then show "iv30_from_yahoo fetch chain when = VNone"
    using a by (auto simp add: iv30_from_yahoo_def iv30_body_def)
qed

text \<open>
  The theorem at a chain that is \<^verbatim>\<open>None\<close> (a \<^verbatim>\<open>TypeError\<close> in the body), at a quote without a
  price, at expiries one day and one hour after the reference time, and at a collaborator
  that always raises.
\<close>

theorem faults_give_none_witness:
  "iv30_body (example_fetch (Inl ProviderFault) (Inl ProviderFault)) VNone 0 = Inl TypeError
   \<and> iv30_from_yahoo (example_fetch (Inl ProviderFault) (Inl ProviderFault)) VNone 0 = VNone
   \<and> chain_result (example_chain (VDict [(''symbol'', VStr ''ABC'')]) (VList [VInt 864000]))
       = Inr (VDict [(''quote'', VDict [(''symbol'', VStr ''ABC'')]),
                     (''expirationDates'', VList [VInt 864000])])
   \<and> dict_get (VDict [(''symbol'', VStr ''ABC'')]) ''regularMarketPrice'' VNone = Inr VNone
   \<and> iv30_from_yahoo (example_fetch (Inl ProviderFault) (Inl ProviderFault))
         (example_chain (VDict [(''symbol'', VStr ''ABC'')]) (VList [VInt 864000])) 0 = VNone
   \<and> chain_result (example_chain example_quote (VList (map VInt [86400, 3600])))
       = Inr (VDict [(''quote'', example_quote),
                     (''expirationDates'', VList (map VInt [86400, 3600]))])
   \<and> (86400 :: int) \<le> py_int 0 + 86400 \<and> (3600 :: int) \<le> py_int 0 + 86400
   \<and> iv30_from_yahoo (example_fetch (Inl ProviderFault) (Inl ProviderFault))
         (example_chain example_quote (VList (map VInt [86400, 3600]))) 0 = VNone
   \<and> chain_head (example_chain example_quote (VList [VInt 864000, VInt 4320000])) 0
       = Inr (Some (example_quote, VFloat 100, VInt 864000, VInt 4320000))
   \<and> example_fetch (Inl ProviderFault) (Inl ProviderFault) (VStr ''ABC'') (VInt 864000)
       = Inl ProviderFault
   \<and> iv30_from_yahoo (example_fetch (Inl ProviderFault) (Inl ProviderFault))
         (example_chain example_quote (VList [VInt 864000, VInt 4320000])) 0 = VNone"
proof -
  let ?f = "example_fetch (Inl ProviderFault) (Inl ProviderFault)"
  have 1: "iv30_body ?f VNone 0 = Inl TypeError"
    by (simp add: iv30_body_def chain_head_def chain_result_def)
  have 2: "chain_result (example_chain (VDict [(''symbol'', VStr ''ABC'')]) (VList [VInt 864000]))
       = Inr (VDict [(''quote'', VDict [(''symbol'', VStr ''ABC'')]),
                     (''expirationDates'', VList [VInt 864000])])"
    by (simp add: chain_result_def example_defs)
  have 3: "chain_result (example_chain example_quote (VList (map VInt [86400, 3600])))
       = Inr (VDict [(''quote'', example_quote),
                     (''expirationDates'', VList (map VInt [86400, 3600]))])"
    by (simp add: chain_result_def example_defs)
  have 4: "(86400 :: int) \<le> py_int 0 + 86400" "(3600 :: int) \<le> py_int 0 + 86400"
    by (simp_all add: py_int_def)
  have 5: "?f (VStr ''ABC'') (VInt 864000) = Inl ProviderFault"
    by (simp add: example_fetch_def)
  have 6: "subscript_key example_quote ''symbol'' = Inr (VStr ''ABC'')"
    by (simp add: example_quote_def)
  show ?thesis
    using faults_give_none [where fetch = "?f" and chain = VNone and ?when = 0 and err = TypeError]
      faults_give_none [where fetch = "?f" and ?when = 0
        and chain = "example_chain (VDict [(''symbol'', VStr ''ABC'')]) (VList [VInt 864000])"
        and res = "VDict [(''quote'', VDict [(''symbol'', VStr ''ABC'')]),
                     (''expirationDates'', VList [VInt 864000])]"
        and quote = "VDict [(''symbol'', VStr ''ABC'')]"]
      faults_give_none [where fetch = "?f" and ?when = 0
        and chain = "example_chain example_quote (VList (map VInt [86400, 3600]))"
        and res = "VDict [(''quote'', example_quote),
                     (''expirationDates'', VList (map VInt [86400, 3600]))]"
        and es = "[86400, 3600]"]
      faults_give_none [where fetch = "?f" and ?when = 0
        and chain = "example_chain example_quote (VList [VInt 864000, VInt 4320000])"
        and quote = example_quote and spot = "VFloat 100" and ?e1.0 = "VInt 864000"
        and ?e2.0 = "VInt 4320000" and ticker = "VStr ''ABC''" and err = ProviderFault]
      1 2 3 4 5 6 example_head
    by simp
qed

section \<open>Positivity of the result\<close>

lemma positive_truthy: "num_of v = Some x \<Longrightarrow> 0 < x \<Longrightarrow> truthy v"
  by (cases v) (auto split: if_splits)

lemma selected_iv_positive:
  assumes "row_ok opt" and "dict_get opt ''impliedVolatility'' VNone = Inr iv"
    and "\<not> in_none_zero iv"
  shows "\<exists>x. num_of iv = Some x \<and> 0 < x"
proof -
  from assms(2) obtain kvs where opt: "opt = VDict kvs" by (cases opt) auto
  with assms(2) have iv: "iv = (case map_of kvs ''impliedVolatility'' of None \<Rightarrow> VNone | Some v \<Rightarrow> v)"
    by auto
  with assms(1) opt have "iv_field_ok iv" by (auto simp add: iv_field_ok_def split: option.splits)
  with assms(3) show ?thesis
    by (cases iv) (auto simp add: iv_field_ok_def in_none_zero_def)
qed

lemma nearest_atm_loop_positive:
  assumes "list_all row_ok opts" and "positive_or_none (fst best)"
    and "nearest_atm_loop opts spot best = Inr best'"
  shows "positive_or_none (fst best')"
  using assms
proof (induction opts arbitrary: best)
  case Nil
  then show ?case by simp
next
  case (Cons opt opts)
  from Cons.prems(3) obtain k iv where k: "dict_get opt ''strike'' VNone = Inr k"
    and iv: "dict_get opt ''impliedVolatility'' VNone = Inr iv"
    and rest: "(if k = VNone \<or> in_none_zero iv then nearest_atm_loop opts spot best
         else try_bind (py_sub k spot) (\<lambda>x. let d = \<bar>x\<bar> in
                if d < snd best then nearest_atm_loop opts spot (iv, d)
                else nearest_atm_loop opts spot best)) = Inr best'"
    by (auto simp add: try_bind_Inr_iff)
  have tl: "list_all row_ok opts" and hd: "row_ok opt" using Cons.prems(1) by simp_all
  show ?case
  proof (cases "k = VNone \<or> in_none_zero iv")
    case True
    with rest have "nearest_atm_loop opts spot best = Inr best'" by simp
    from Cons.IH [OF tl Cons.prems(2) this] show ?thesis .
  next
    case False
    with rest obtain x where x: "py_sub k spot = Inr x"
      and r: "(if \<bar>x\<bar> < snd best then nearest_atm_loop opts spot (iv, \<bar>x\<bar>)
               else nearest_atm_loop opts spot best) = Inr best'"
      by (auto simp add: try_bind_Inr_iff Let_def)
    from False have "\<not> in_none_zero iv" by simp
    from selected_iv_positive [OF hd iv this] have p: "positive_or_none (fst (iv, \<bar>x\<bar>))"
      by (simp add: positive_or_none_def)
    show ?thesis
    proof (cases "\<bar>x\<bar> < snd best")
      case True
      with r have "nearest_atm_loop opts spot (iv, \<bar>x\<bar>) = Inr best'" by simp
      from Cons.IH [OF tl p this] show ?thesis .
    next
      case False
      with r have "nearest_atm_loop opts spot best = Inr best'" by simp
      from Cons.IH [OF tl Cons.prems(2) this] show ?thesis .
    qed
  qed
qed

lemma nearest_atm_iv_positive:
  assumes "rows_ok options" and "nearest_atm_iv options spot = Inr v"
  shows "positive_or_none v"
proof -
  from assms(2) obtain opts best where it: "py_iter options = Inr opts"
    and l: "nearest_atm_loop opts spot (VNone, 10 ^ 18) = Inr best" and v: "v = fst best"
    by (auto simp add: nearest_atm_iv_def try_bind_Inr_iff)
  from assms(1) it have "list_all row_ok opts" by (simp add: rows_ok_def)
  from nearest_atm_loop_positive [OF this _ l] show ?thesis
    by (simp add: v positive_or_none_def)
qed

lemma nearest_atm_loop_excludes:
  assumes "fst best = VNone \<or> \<not> in_none_zero (fst best)"
    and "nearest_atm_loop opts spot best = Inr best'"
  shows "fst best' = VNone \<or> \<not> in_none_zero (fst best')"
  using assms
proof (induction opts arbitrary: best)
  case Nil
  then show ?case by simp
next
  case (Cons opt opts)
  from Cons.prems(2) show ?case
    by (auto simp add: try_bind_Inr_iff Let_def split: if_splits
        dest: Cons.IH [OF Cons.prems(1)] Cons.IH [rotated])
qed

lemma nearest_atm_iv_excludes:
  assumes "nearest_atm_iv options spot = Inr v"
  shows "v = VNone \<or> \<not> in_none_zero v"
proof -
  from assms obtain opts best where
    l: "nearest_atm_loop opts spot (VNone, 10 ^ 18) = Inr best" and v: "v = fst best"
    by (auto simp add: nearest_atm_iv_def try_bind_Inr_iff)
  from nearest_atm_loop_excludes [OF _ l] show ?thesis by (simp add: v)
qed

lemma call_put_iv_positive:
  assumes "positive_or_none ivc" and "positive_or_none ivp" and "call_put_iv ivc ivp = Inr v"
  shows "positive_or_none v"
proof (cases "ivp = VNone")
  case True
  with assms(1,3) show ?thesis by (simp add: call_put_iv_def)
next
  case False
  with assms(2) obtain y where y: "num_of ivp = Some y" "0 < y"
    by (auto simp add: positive_or_none_def)
  show ?thesis
  proof (cases "ivc = VNone")
    case True
    with False assms(2,3) show ?thesis by (simp add: call_put_iv_def)
  next
    case nc: False
    with assms(1) obtain x where x: "num_of ivc = Some x" "0 < x"
      by (auto simp add: positive_or_none_def)
    from positive_truthy [OF x] have "truthy ivc" .
    with False x y assms(3) have "v = VFloat ((x + y) / 2)"
      by (simp add: call_put_iv_def)
    moreover have "0 < (x + y) / 2" using x y by simp
    ultimately have "num_of v = Some ((x + y) / 2) \<and> 0 < (x + y) / 2" by simp
    then show ?thesis unfolding positive_or_none_def by blast
  qed
qed

lemma fetch_okD: "fetch_ok fetch \<Longrightarrow> fetch ticker e = Inr r \<Longrightarrow> response_ok r"
  unfolding fetch_ok_def by (metis sum.case(2))

lemma expiry_iv_positive:
  assumes ok: "fetch_ok fetch"
    and "expiry_iv fetch quote spot e = Inr v"
  shows "positive_or_none v"
proof -
  from assms(2) obtain ticker r j c ivc p ivp where f: "fetch ticker e = Inr r"
    and j: "bucket_of r = Inr j"
    and c: "dict_get j ''calls'' (VList []) = Inr c" and ivc: "nearest_atm_iv c spot = Inr ivc"
    and p: "dict_get j ''puts'' (VList []) = Inr p" and ivp: "nearest_atm_iv p spot = Inr ivp"
    and v: "call_put_iv ivc ivp = Inr v"
    by (auto simp add: expiry_iv_def fetch_bucket_def try_bind_Inr_iff)
  from fetch_okD [OF ok f] j c p have "rows_ok c" "rows_ok p" by (simp_all add: response_ok_def)
  then have "positive_or_none ivc" "positive_or_none ivp"
    using ivc ivp by (auto intro: nearest_atm_iv_positive)
  then show ?thesis using v by (rule call_put_iv_positive)
qed

lemma combine_ivs_positive:
  assumes "positive_or_none iv1" and "positive_or_none iv2"
    and "combine_ivs iv1 iv2 e1 e2 t = Inr v"
  shows "positive_or_none v"
  using assms interpolate_positive
  by (auto simp add: combine_ivs_def positive_or_none_def try_bind_Inr_iff
      split: if_splits option.splits)

text \<open>
  Claim C6, as amended. When every implied volatility the collaborator returns is absent or a
  non-negative number, the estimator returns \<^verbatim>\<open>None\<close> or a number above zero. \<^verbatim>\<open>nearest_atm_iv\<close> never
  selects a quote whose implied volatility is \<^verbatim>\<open>None\<close> or zero, and the interpolated value is at
  least \<open>sqrt(1e-10)\<close>.
\<close>

theorem result_positive:
  assumes "fetch_ok fetch"
  shows "(iv30_from_yahoo fetch chain when = VNone
          \<or> (\<exists>x. num_of (iv30_from_yahoo fetch chain when) = Some x \<and> 0 < x))
       \<and> (nearest_atm_iv options spot = Inr iv \<longrightarrow> iv = VNone \<or> \<not> in_none_zero iv)
       \<and> sqrt (1 / 10 ^ 10) \<le> interpolate_iv30 a b T1 T2"
proof -
  have "positive_or_none (iv30_from_yahoo fetch chain when)"
  proof (cases "iv30_body fetch chain when")
    case (Inl err)
    then show ?thesis by (simp add: iv30_from_yahoo_def positive_or_none_def)
  next
    case (Inr v)
    then have v: "iv30_from_yahoo fetch chain when = v" by (simp add: iv30_from_yahoo_def)
    from Inr obtain h where h: "chain_head chain when = Inr h"
      and b: "(case h of None \<Rightarrow> Inr VNone
               | Some (quote, spot, e1, e2) \<Rightarrow>
                   try_bind (fetch_ivs fetch quote spot e1 e2) (\<lambda>(iv1, iv2).
                     combine_ivs iv1 iv2 e1 e2 (py_int when))) = Inr v"
      by (auto simp add: iv30_body_def try_bind_Inr_iff)
    show ?thesis
    proof (cases h)
      case None
      with b show ?thesis by (simp add: v positive_or_none_def)
    next
      case (Some q)
      obtain quote spot e1 e2 where q: "q = (quote, spot, e1, e2)" by (cases q) auto
      from b Some q obtain iv1 iv2 where f: "fetch_ivs fetch quote spot e1 e2 = Inr (iv1, iv2)"
        and c: "combine_ivs iv1 iv2 e1 e2 (py_int when) = Inr v"
        by (auto simp add: try_bind_Inr_iff)
      from expiry_iv_from_fetch_ivs [OF f]
      have "expiry_iv fetch quote spot e1 = Inr iv1" "expiry_iv fetch quote spot e2 = Inr iv2"
        by simp_all
      then have "positive_or_none iv1" "positive_or_none iv2"
        using assms by (auto intro: expiry_iv_positive)
      from combine_ivs_positive [OF this c] show ?thesis by (simp add: v)
    qed
  qed
  then show ?thesis
    using nearest_atm_iv_excludes [of options spot iv] interpolate_floor [of a b T1 T2]
    by (auto simp add: positive_or_none_def)
qed

text \<open>
  The theorem on the example chain, where the result is \<open>0.3\<close>, and at two quotes of which the
  nearer has a zero implied volatility.
\<close>

theorem result_positive_witness:
  "fetch_ok (example_fetch (Inr (example_response (VFloat (2/10)) (VFloat (4/10))))
                           (Inr (example_response VNone (VInt 0))))
   \<and> iv30_from_yahoo
         (example_fetch (Inr (example_response (VFloat (2/10)) (VFloat (4/10))))
                        (Inr (example_response VNone (VInt 0))))
         (example_chain example_quote (VList [VInt 864000, VInt 4320000])) 0 \<noteq> VNone
   \<and> (\<exists>x. num_of (iv30_from_yahoo
         (example_fetch (Inr (example_response (VFloat (2/10)) (VFloat (4/10))))
                        (Inr (example_response VNone (VInt 0))))
         (example_chain example_quote (VList [VInt 864000, VInt 4320000])) 0) = Some x \<and> 0 < x)
   \<and> nearest_atm_iv (VList [VDict [(''strike'', VFloat 101), (''impliedVolatility'', VInt 0)],
                             VDict [(''strike'', VFloat 90), (''impliedVolatility'', VFloat (1/4))]])
         (VFloat 100) = Inr (VFloat (1/4))
   \<and> \<not> in_none_zero (VFloat (1/4))"
proof -
  have n: "nearest_atm_iv (VList [VDict [(''strike'', VFloat 101), (''impliedVolatility'', VInt 0)],
                             VDict [(''strike'', VFloat 90), (''impliedVolatility'', VFloat (1/4))]])
         (VFloat 100) = Inr (VFloat (1/4))"
    by (simp add: iv_eval)
  show ?thesis
    using result_positive [OF example_fetch_ok,
        of "example_chain example_quote (VList [VInt 864000, VInt 4320000])" 0
           "VList [VDict [(''strike'', VFloat 101), (''impliedVolatility'', VInt 0)],
                   VDict [(''strike'', VFloat 90), (''impliedVolatility'', VFloat (1/4))]]"
           "VFloat 100" "VFloat (1/4)" 1 1 1 1]
      example_fetch_ok example_single_value n
    by simp
qed

text \<open>
  Claim C6 as stated fails when the provider returns a negative implied volatility, which
  \<^verbatim>\<open>nearest_atm_iv\<close> does not exclude. When only the first expiry yields a value, that value is
  returned as it is: a call at \<open>-0.2\<close> and a put at \<open>0.2\<close> average to a zero, and a lone call at
  \<open>-0.5\<close> is returned as \<open>-0.5\<close>. Neither result is the unavailable marker, and neither is
  above zero.
\<close>

theorem result_positive_counterexample:
  "iv30_from_yahoo
         (example_fetch (Inr (example_response (VFloat (- (2/10))) (VFloat (2/10))))
                        (Inr (example_response VNone VNone)))
         (example_chain example_quote (VList [VInt 864000, VInt 4320000])) 0 = VFloat 0
   \<and> iv30_from_yahoo
         (example_fetch (Inr (example_response (VFloat (- (1/2))) VNone))
                        (Inr (example_response VNone VNone)))
         (example_chain example_quote (VList [VInt 864000, VInt 4320000])) 0 = VFloat (- (1/2))"
proof -
  have a: "expiry_iv (example_fetch (Inr (example_response (VFloat (- (2/10))) (VFloat (2/10))))
                        (Inr (example_response VNone VNone)))
             example_quote (VFloat 100) (VInt 864000) = Inr (VFloat 0)"
     "expiry_iv (example_fetch (Inr (example_response (VFloat (- (2/10))) (VFloat (2/10))))
                        (Inr (example_response VNone VNone)))
             example_quote (VFloat 100) (VInt 4320000) = Inr VNone"
    by (simp_all add: example_expiry_iv iv_eval)
  have b: "expiry_iv (example_fetch (Inr (example_response (VFloat (- (1/2))) VNone))
                        (Inr (example_response VNone VNone)))
             example_quote (VFloat 100) (VInt 864000) = Inr (VFloat (- (1/2)))"
     "expiry_iv (example_fetch (Inr (example_response (VFloat (- (1/2))) VNone))
                        (Inr (example_response VNone VNone)))
             example_quote (VFloat 100) (VInt 4320000) = Inr VNone"
    by (simp_all add: example_expiry_iv iv_eval)
  show ?thesis
    unfolding iv30_from_yahoo_def iv30_body_staged [OF example_head a]
      iv30_body_staged [OF example_head b]
    by (simp add: combine_ivs_def)
qed

section \<open>Properties of the gap-fill helper\<close>

text \<open>
  Claim C7, as amended. For every previous close and every bar with \<open>low \<le> open \<le> high\<close>, the
  gap-fill percentage returned by \<^verbatim>\<open>gapfill_and_clv\<close> is the float
  \<open>min(150, 100 * (retracement / gap))\<close> rounded to two decimals when
  \<open>gap = |open - prev_close| > 1e-9\<close> (the retracement being \<open>open - low\<close> on a gap up and
  \<open>high - open\<close> on a gap down) and \<open>0\<close> otherwise, and it lies in \<open>[0, 150]\<close>. Every operation
  is a binary64 operation.
\<close>

theorem gapfill_pct_range:
  assumes "d_low d0 \<le> d_open d0" and "d_open d0 \<le> d_high d0"
  shows "fst (gapfill_and_clv prev_close d0) =
           (if fl \<bar>d_open d0 - prev_close\<bar> > fl (1 / 10 ^ 9)
            then py_round_float
                   (min 150 (fl (100 * fl (fl (if d_open d0 \<ge> prev_close then d_open d0 - d_low d0
                                              else d_high d0 - d_open d0)
                                          / fl \<bar>d_open d0 - prev_close\<bar>)))) 2
            else 0)
         \<and> 0 \<le> fst (gapfill_and_clv prev_close d0) \<and> fst (gapfill_and_clv prev_close d0) \<le> 150"
proof -
  define gap where "gap = (if d_open d0 \<ge> prev_close then fl (d_open d0 - prev_close)
                            else fl (prev_close - d_open d0))"
  define retr where "retr = (if d_open d0 \<ge> prev_close then fl (d_open d0 - d_low d0)
                             else fl (d_high d0 - d_open d0))"
  define g where "g = (if gap > fl (1 / 10 ^ 9) then min 150 (fl (100 * fl (retr / gap))) else 0)"
  have gap: "gap = fl \<bar>d_open d0 - prev_close\<bar>" by (simp add: gap_def)
  have retr: "retr = fl (if d_open d0 \<ge> prev_close then d_open d0 - d_low d0
                          else d_high d0 - d_open d0)"
    by (simp add: retr_def)
  have retr0: "0 \<le> retr" using assms by (simp add: retr_def fl_nonneg)
  have gap0: "0 \<le> gap" unfolding gap by (rule fl_nonneg) simp
  have fst: "fst (gapfill_and_clv prev_close d0) = py_round_float g 2"
    by (simp add: gapfill_and_clv_def Let_def g_def gap_def retr_def)
  have "0 \<le> fl (100 * fl (retr / gap))"
    using retr0 gap0 by (intro fl_nonneg mult_nonneg_nonneg divide_nonneg_nonneg) simp_all
  then have "0 \<le> g \<and> g \<le> 150" by (simp add: g_def)
  then have "of_int 0 \<le> g" "g \<le> of_int 150" by simp_all
  from py_round_float_bounds [OF this, of 2]
  have r: "0 \<le> py_round_float g 2" "py_round_float g 2 \<le> 150" by simp_all
  have z: "py_round_float 0 2 = 0" using py_round_float_of_int [of 0 2] by simp
  have "py_round_float g 2 =
           (if fl \<bar>d_open d0 - prev_close\<bar> > fl (1 / 10 ^ 9)
            then py_round_float
                   (min 150 (fl (100 * fl (fl (if d_open d0 \<ge> prev_close then d_open d0 - d_low d0
                                              else d_high d0 - d_open d0)
                                          / fl \<bar>d_open d0 - prev_close\<bar>)))) 2
            else 0)"
    unfolding g_def gap [symmetric] retr [symmetric] by (simp add: z)
  with r show ?thesis unfolding fst by simp
qed

text \<open>
  The theorem at the bar \<open>open = 93.75, high = 106, low = 90\<close> after a close of \<open>133.75\<close>: the
  float \<open>100.0 * (12.25 / 40.0)\<close> lies just above \<open>30.625\<close>, and the float \<open>30.63\<close> is returned.
\<close>

theorem gapfill_pct_range_witness:
  "d_low (example_bar (93 + 3/4) 106 90 (98 + 3/4)) \<le> d_open (example_bar (93 + 3/4) 106 90 (98 + 3/4))
   \<and> d_open (example_bar (93 + 3/4) 106 90 (98 + 3/4)) \<le> d_high (example_bar (93 + 3/4) 106 90 (98 + 3/4))
   \<and> fst (gapfill_and_clv (133 + 3/4) (example_bar (93 + 3/4) 106 90 (98 + 3/4))) = fl (3063 / 100)
   \<and> 0 \<le> fst (gapfill_and_clv (133 + 3/4) (example_bar (93 + 3/4) 106 90 (98 + 3/4)))
   \<and> fst (gapfill_and_clv (133 + 3/4) (example_bar (93 + 3/4) 106 90 (98 + 3/4))) \<le> 150"
proof -
  have h: "d_low (example_bar (93 + 3/4) 106 90 (98 + 3/4)) \<le> d_open (example_bar (93 + 3/4) 106 90 (98 + 3/4))"
    "d_open (example_bar (93 + 3/4) 106 90 (98 + 3/4)) \<le> d_high (example_bar (93 + 3/4) 106 90 (98 + 3/4))"
    by (simp_all add: example_bar_def)
  have v: "fst (gapfill_and_clv (133 + 3/4) (example_bar (93 + 3/4) 106 90 (98 + 3/4))) = fl (3063 / 100)"
    unfolding gapfill_and_clv_def example_bar_def Let_def
    by (simp add: py_round_float_def py_round_def fl_eval)
  from gapfill_pct_range [OF h, of "133 + 3/4"] h v show ?thesis by simp
qed

text \<open>
  Claim C7 as stated fails twice. A bar whose low lies above its open (all four prices positive)
  has a negative retracement on a gap up, and the result is \<open>-50\<close>, outside \<open>[0, 150]\<close>. And the
  returned value is the rounded one: for a retracement of a third of the gap it is the float
  \<open>33.33\<close>, not the float \<open>100.0 * (1.0 / 3.0)\<close>.
\<close>

theorem gapfill_pct_counterexample:
  "0 < d_open (example_bar 110 120 115 118) \<and> 0 < d_high (example_bar 110 120 115 118)
   \<and> 0 < d_low (example_bar 110 120 115 118) \<and> 0 < d_close (example_bar 110 120 115 118)
   \<and> fst (gapfill_and_clv 100 (example_bar 110 120 115 118)) = - 50
   \<and> fst (gapfill_and_clv 100 (example_bar 103 104 102 103))
       \<noteq> min 150 (fl (100 * fl (fl (103 - 102) / fl \<bar>103 - 100\<bar>)))"
  unfolding gapfill_and_clv_def example_bar_def Let_def
  by (simp add: py_round_float_def py_round_def fl_eval)






section \<open>Properties of the drift scorer\<close>

text \<open>
  Claim C9. A present \<^verbatim>\<open>ivCrush\<close> value \<open>x\<close> adds exactly \<open>+1.0\<close> to the score when
  \<open>-40 \<le> x \<le> -5\<close> (both ends included), exactly \<open>-0.5\<close> when \<open>x < -50\<close>, and nothing otherwise.
  So \<open>x = -40\<close> and \<open>x = -5\<close> add \<open>+1.0\<close>, \<open>x = -4.9\<close> adds \<open>0\<close> and \<open>x = -50.1\<close> adds \<open>-0.5\<close>.
\<close>

theorem iv_crush_contribution:
  "pead_score clv g (Some x) =
     pead_score clv g None + (if - 40 \<le> x \<and> x \<le> - 5 then 1 else if x < - 50 then - (1/2) else 0)
   \<and> pead_score clv g (Some (- 40)) = pead_score clv g None + 1
   \<and> pead_score clv g (Some (- 5)) = pead_score clv g None + 1
   \<and> pead_score clv g (Some (- (49/10))) = pead_score clv g None
   \<and> pead_score clv g (Some (- (501/10))) = pead_score clv g None - 1/2"
  by (simp add: pead_score_def Let_def split: option.split)

text \<open>
  Claim C10. Whatever arguments are present or absent, the score lies in \<open>[-1.5, 3.0]\<close>; so
  \<open>peadPct = 2 * score\<close> lies in \<open>[-3, 6]\<close> and the clamp to \<open>[-8, 12]\<close> leaves it unchanged; the
  range is exactly \<open>[peadPct - 3, peadPct + 3]\<close>, both ends integers; and the confidence is
  \<open>0.35 + 0.1 * score\<close>, in \<open>[0.2, 0.65]\<close>, which the clamp to \<open>[0.1, 0.8]\<close> leaves unchanged.
\<close>

theorem simple_pead_within_clamps:
  "- (3/2) \<le> pead_score clv g x \<and> pead_score clv g x \<le> 3
   \<and> max (- 8) (min 12 (2 * pead_score clv g x)) = 2 * pead_score clv g x
   \<and> (case simple_pead clv g x of (peadPct, rangePct, confidence) \<Rightarrow>
         peadPct = 2 * pead_score clv g x \<and> - 3 \<le> peadPct \<and> peadPct \<le> 6
       \<and> map real_of_int rangePct = [peadPct - 3, peadPct + 3]
       \<and> confidence = 35/100 + (1/10) * pead_score clv g x
       \<and> max (1/10) (min (8/10) (35/100 + (1/10) * pead_score clv g x))
           = 35/100 + (1/10) * pead_score clv g x
       \<and> 2/10 \<le> confidence \<and> confidence \<le> 65/100)"
proof -
  define s where "s = pead_score clv g x"
  obtain k where k: "2 * s = of_int k"
    using pead_score_Ints [of clv g x] unfolding s_def by (auto elim: Ints_cases)
  have b: "- (3/2) \<le> s" "s \<le> 3"
    unfolding s_def by (rule pead_score_bounds)+
  have i1: "real_of_int (py_int (2 * s - 3)) = 2 * s - 3"
  proof -
    have "2 * s - 3 = of_int (k - 3)" using k by simp
    then show ?thesis by (metis py_int_of_int)
  qed
  have i2: "real_of_int (py_int (2 * s + 3)) = 2 * s + 3"
  proof -
    have "2 * s + 3 = of_int (k + 3)" using k by simp
    then show ?thesis by (metis py_int_of_int)
  qed
  show ?thesis
    unfolding simple_pead_exact Let_def s_def [symmetric]
    using b i1 i2 by simp
qed

end
